theory Spec2Isabelle
  imports Main
begin

section \<open>Values shared by the three scripts\<close>

text \<open>
  The repository holds three batch scripts around the NBA statistics provider:
  \<^verbatim>\<open>fetch_team_rosters.py\<close> (roster harvester), \<^verbatim>\<open>fetch_player_data.py\<close> (player
  harvester) and \<^verbatim>\<open>generate_player_names.py\<close> (index builder). The provider, the file
  system and the clock are outside the code: the provider's answers and the outcome of
  each file write are parameters of the model, the file system is an explicit store, and
  every external call, write, pause and printed line is recorded in a trace.
\<close>

text \<open>A Python exception of class \<^verbatim>\<open>Exception\<close> with its message.\<close>

datatype exn = Exception string

text \<open>
  A parsed JSON value, as \<^verbatim>\<open>json.load\<close> returns it. Numbers are integers here; a
  number with a fractional part is outside the model. An object keeps its members in
  file order; a repeated member name takes its last value, as in Python.
\<close>

datatype json =
    JNull
  | JBool bool
  | JInt int
  | JStr string
  | JArr "json list"
  | JObj "(string \<times> json) list"

text \<open>Python's truth value of an object, as \<^verbatim>\<open>if player_id and player_name\<close> tests it.\<close>

fun truthy :: "json \<Rightarrow> bool" where
  "truthy JNull = False"
| "truthy (JBool b) = b"
| "truthy (JInt i) = (i \<noteq> 0)"
| "truthy (JStr s) = (s \<noteq> [])"
| "truthy (JArr xs) = (xs \<noteq> [])"
| "truthy (JObj kvs) = (kvs \<noteq> [])"

text \<open>
  Keys of a Python dict are compared by hash and equality: \<^verbatim>\<open>True\<close> and \<^verbatim>\<open>1\<close> are the
  same key, lists and dicts are unhashable and raise \<^verbatim>\<open>TypeError\<close>.
\<close>

datatype key = KNone | KInt int | KStr string

fun hash_key :: "json \<Rightarrow> exn + key" where
  "hash_key JNull = Inr KNone"
| "hash_key (JBool b) = Inr (KInt (if b then 1 else 0))"
| "hash_key (JInt i) = Inr (KInt i)"
| "hash_key (JStr s) = Inr (KStr s)"
| "hash_key (JArr xs) = Inl (Exception ''TypeError: unhashable type: list'')"
| "hash_key (JObj kvs) = Inl (Exception ''TypeError: unhashable type: dict'')"

text \<open>\<^verbatim>\<open>player.get(name)\<close>: only a dict has \<^verbatim>\<open>get\<close>; a missing member gives \<^verbatim>\<open>None\<close>.\<close>

fun py_get :: "json \<Rightarrow> string \<Rightarrow> exn + json" where
  "py_get (JObj kvs) name =
     Inr (case map_of (rev kvs) name of None \<Rightarrow> JNull | Some v \<Rightarrow> v)"
| "py_get v name = Inl (Exception ''AttributeError: no attribute get'')"

text \<open>
  \<^verbatim>\<open>unique()\<close> of pandas, and the key order of a Python dict: the distinct values in
  order of first appearance.
\<close>

fun unique :: "'a list \<Rightarrow> 'a list" where
  "unique [] = []"
| "unique (x # xs) = x # unique (filter (\<lambda>y. y \<noteq> x) xs)"

text \<open>\<^verbatim>\<open>for player in roster_data\<close>: what iterating the loaded value yields.\<close>

fun py_iter :: "json \<Rightarrow> exn + json list" where
  "py_iter (JArr xs) = Inr xs"
| "py_iter (JObj kvs) = Inr (map JStr (unique (map fst kvs)))"
| "py_iter (JStr s) = Inr (map (\<lambda>c. JStr [c]) s)"
| "py_iter v = Inl (Exception ''TypeError: object is not iterable'')"

section \<open>Index builder: \<^verbatim>\<open>generate_player_names.py\<close>\<close>

text \<open>The dict \<^verbatim>\<open>player_names\<close>: player identifier to display name.\<close>

type_synonym index = "key \<rightharpoonup> json"

text \<open>
  The body of the inner loop (lines 24 to 31) for one element of a roster. An exception
  leaves the \<^verbatim>\<open>try\<close> block; it is the \<open>Inl\<close> result.
\<close>

definition scan_player :: "index \<Rightarrow> json \<Rightarrow> exn + index" where
  "scan_player names player =
     (case py_get player ''PLAYER_ID'' of
        Inl e \<Rightarrow> Inl e
      | Inr player_id \<Rightarrow>
          (case py_get player ''PLAYER'' of
             Inl e \<Rightarrow> Inl e
           | Inr player_name \<Rightarrow>
               if truthy player_id \<and> truthy player_name then
                 (case hash_key player_id of
                    Inl e \<Rightarrow> Inl e
                  | Inr k \<Rightarrow>
                      if names k = None then Inr (names(k \<mapsto> player_name))
                      else Inr names)
               else Inr names))"

text \<open>
  The inner loop. \<^verbatim>\<open>player_names\<close> is mutated in place, so the entries inserted before
  an exception stay; the second component is the exception that ended the loop, if any.
\<close>

fun scan_players :: "index \<Rightarrow> json list \<Rightarrow> index \<times> exn option" where
  "scan_players names [] = (names, None)"
| "scan_players names (player # rest) =
     (case scan_player names player of
        Inl e \<Rightarrow> (names, Some e)
      | Inr names' \<Rightarrow> scan_players names' rest)"

text \<open>
  One iteration of the outer loop (lines 18 to 35). The argument is what opening and
  \<^verbatim>\<open>json.load\<close> give for the file: an exception or the parsed value. Any exception is
  caught, reported and the scan goes on with the next file.
\<close>

definition scan_file :: "index \<Rightarrow> exn + json \<Rightarrow> index" where
  "scan_file names loaded =
     (case loaded of
        Inl e \<Rightarrow> names
      | Inr roster_data \<Rightarrow>
          (case py_iter roster_data of
             Inl e \<Rightarrow> names
           | Inr players \<Rightarrow> fst (scan_players names players)))"

fun scan_files :: "index \<Rightarrow> (exn + json) list \<Rightarrow> index" where
  "scan_files names [] = names"
| "scan_files names (team_file # rest) = scan_files (scan_file names team_file) rest"

text \<open>The script: start from the empty dict and scan the files in glob order.\<close>

definition player_names :: "(exn + json) list \<Rightarrow> index" where
  "player_names team_files = scan_files Map.empty team_files"

text \<open>The elements of a roster file that the scan may look at.\<close>

definition elements :: "exn + json \<Rightarrow> json list" where
  "elements loaded =
     (case loaded of
        Inl e \<Rightarrow> []
      | Inr roster_data \<Rightarrow> (case py_iter roster_data of Inl e \<Rightarrow> [] | Inr players \<Rightarrow> players))"

text \<open>
  The key and name that one roster element offers to the index: it is an object, both
  \<^verbatim>\<open>PLAYER_ID\<close> and \<^verbatim>\<open>PLAYER\<close> are truthy and the identifier is hashable.
\<close>

definition offers :: "json \<Rightarrow> (key \<times> json) option" where
  "offers player =
     (case (py_get player ''PLAYER_ID'', py_get player ''PLAYER'') of
        (Inr player_id, Inr player_name) \<Rightarrow>
          (if truthy player_id \<and> truthy player_name then
             (case hash_key player_id of Inl e \<Rightarrow> None | Inr k \<Rightarrow> Some (k, player_name))
           else None)
      | _ \<Rightarrow> None)"

text \<open>An element on which the loop body raises, which ends the scan of its file.\<close>

definition raises :: "json \<Rightarrow> bool" where
  "raises player = (case scan_player Map.empty player of Inl e \<Rightarrow> True | Inr names \<Rightarrow> False)"

section \<open>The store, the provider and the trace\<close>

text \<open>Decimal notation of an integer, as an f-string and \<^verbatim>\<open>str\<close> print it.\<close>

fun digits :: "nat \<Rightarrow> string" where
  "digits n =
     (if n < 10 then [''0123456789'' ! n]
      else digits (n div 10) @ [''0123456789'' ! (n mod 10)])"

declare digits.simps [simp del]

definition str :: "int \<Rightarrow> string" where
  "str i = (if i < 0 then CHR ''-'' # digits (nat (- i)) else digits (nat i))"

text \<open>The season label \<^verbatim>\<open>f"{year}-{str(year+1)[-2:]}"\<close> (line 26 of the roster harvester).\<close>

definition season_str :: "int \<Rightarrow> string" where
  "season_str year =
     str year @ ''-'' @ (let s = str (year + 1) in drop (length s - 2) s)"

text \<open>
  The rows of the data frames, with the columns the scripts read. A roster row is
  written as it comes; its columns are kept as JSON members.
\<close>

record player_row =
  PERSON_ID :: int
  TEAM_ID :: int

record career_row =
  TEAM_ABBREVIATION :: string
  SEASON_ID :: string
  stats :: "(string \<times> json) list"

type_synonym roster_row = "(string \<times> json) list"

text \<open>
  The content of a stored file: the records that \<^verbatim>\<open>to_json(orient='records')\<close> wrote, or
  the remains of a write that raised after the file had been opened.
\<close>

datatype stored =
    Roster_json "roster_row list"
  | Career_json "career_row list"
  | Truncated

type_synonym store = "string \<rightharpoonup> stored"

text \<open>
  What a call of \<^verbatim>\<open>to_json\<close> on a path does: the file is there with the records; the call
  returns but \<^verbatim>\<open>os.path.exists\<close> finds no file afterwards (the branch of lines 49 and 43);
  the call raises and leaves nothing; the call raises and leaves a truncated file.
\<close>

datatype write_outcome =
    Written
  | Not_created
  | Write_error exn
  | Write_truncated exn

text \<open>
  The environment of a run: the data directory, the three provider endpoints (each
  answers with a data frame or raises) and the behaviour of the file system on a write.
  The answer to a request depends on the request only.
\<close>

record env =
  BASE_DATA_DIR :: string
  CommonAllPlayers :: "string \<Rightarrow> exn + player_row list"
  CommonTeamRoster :: "int \<Rightarrow> string \<Rightarrow> exn + roster_row list"
  PlayerCareerStats :: "int \<Rightarrow> exn + career_row list"
  to_json :: "string \<Rightarrow> write_outcome"

text \<open>The printed lines, without their layout.\<close>

datatype msg =
    Processing string
  | Fetching_roster int string
  | Saved_to string
  | File_not_created string
  | Error_saving_team int exn
  | Error_in_season string exn
  | Saving_players nat
  | Progress nat nat int
  | Player_file_not_created int string
  | Error_fetching_player int exn
  | Suppressing
  | Complete nat nat nat

text \<open>
  The trace of a run. A call carries whether the provider answered with a data frame;
  \<open>Sleep\<close> carries the pause in milliseconds.
\<close>

datatype event =
    Call_all_players string bool
  | Call_team_roster int string bool
  | Call_player_career int bool
  | Write_file string write_outcome
  | Sleep nat
  | Print msg

section \<open>Roster harvester: \<^verbatim>\<open>fetch_team_rosters.py\<close>\<close>

definition team_file :: "env \<Rightarrow> int \<Rightarrow> string \<Rightarrow> string" where
  "team_file env team_id season =
     BASE_DATA_DIR env @ ''/teams/'' @ str team_id @ ''_'' @ season @ ''.json''"

text \<open>
  Line 36: the team identifiers of the listing other than 0, each once, in order of first
  appearance.
\<close>

definition valid_teams :: "player_row list \<Rightarrow> int list" where
  "valid_teams all_players = unique (map TEAM_ID (filter (\<lambda>r. TEAM_ID r \<noteq> 0) all_players))"

text \<open>
  Lines 40 to 53, one team of one season: the new store and the events of this unit. The
  pause of line 51 is reached only when neither the fetch nor the write raised.
\<close>

definition save_roster :: "env \<Rightarrow> string \<Rightarrow> store \<Rightarrow> int \<Rightarrow> store \<times> event list" where
  "save_roster env season fs team_id =
     (let path = team_file env team_id season in
      if fs path \<noteq> None then (fs, [])
      else
        (case CommonTeamRoster env team_id season of
           Inl e \<Rightarrow>
             (fs, [Print (Fetching_roster team_id season),
                   Call_team_roster team_id season False,
                   Print (Error_saving_team team_id e)])
         | Inr roster \<Rightarrow>
             (case to_json env path of
                Written \<Rightarrow>
                  (fs(path \<mapsto> Roster_json roster),
                   [Print (Fetching_roster team_id season),
                    Call_team_roster team_id season True,
                    Write_file path Written,
                    Print (Saved_to path),
                    Sleep 800])
              | Not_created \<Rightarrow>
                  (fs,
                   [Print (Fetching_roster team_id season),
                    Call_team_roster team_id season True,
                    Write_file path Not_created,
                    Print (File_not_created path),
                    Sleep 800])
              | Write_error e \<Rightarrow>
                  (fs,
                   [Print (Fetching_roster team_id season),
                    Call_team_roster team_id season True,
                    Write_file path (Write_error e),
                    Print (Error_saving_team team_id e)])
              | Write_truncated e \<Rightarrow>
                  (fs(path \<mapsto> Truncated),
                   [Print (Fetching_roster team_id season),
                    Call_team_roster team_id season True,
                    Write_file path (Write_truncated e),
                    Print (Error_saving_team team_id e)]))))"

text \<open>The loop of line 39 over the teams of one season.\<close>

fun save_rosters :: "env \<Rightarrow> string \<Rightarrow> store \<Rightarrow> int list \<Rightarrow> store \<times> event list" where
  "save_rosters env season fs [] = (fs, [])"
| "save_rosters env season fs (team_id # rest) =
     (case save_roster env season fs team_id of
        (fs1, evs1) \<Rightarrow>
          (case save_rosters env season fs1 rest of
             (fs2, evs2) \<Rightarrow> (fs2, evs1 @ evs2)))"

text \<open>The state of the harvester between two seasons.\<close>

record rstate =
  player_ids_to_fetch :: "int set"
  rfiles :: store
  rtrace :: "event list"

text \<open>
  Lines 26 to 59, one season. When the listing call raises, the handler of line 58
  reports it and the season adds nothing; otherwise the rosters of its teams are saved
  and line 56 adds every \<^verbatim>\<open>PERSON_ID\<close> of the listing.
\<close>

definition process_season :: "env \<Rightarrow> rstate \<Rightarrow> int \<Rightarrow> rstate" where
  "process_season env st year =
     (let season = season_str year in
      case CommonAllPlayers env season of
        Inl e \<Rightarrow>
          st\<lparr>rtrace := rtrace st @
                [Print (Processing season), Call_all_players season False,
                 Print (Error_in_season season e)]\<rparr>
      | Inr all_players \<Rightarrow>
          (case save_rosters env season (rfiles st) (valid_teams all_players) of
             (fs, evs) \<Rightarrow>
               \<lparr>player_ids_to_fetch = player_ids_to_fetch st \<union> set (map PERSON_ID all_players),
                rfiles = fs,
                rtrace = rtrace st @
                  [Print (Processing season), Call_all_players season True] @ evs\<rparr>))"

fun seasons_loop :: "env \<Rightarrow> rstate \<Rightarrow> int list \<Rightarrow> rstate" where
  "seasons_loop env st [] = st"
| "seasons_loop env st (year # rest) = seasons_loop env (process_season env st year) rest"

text \<open>
  The function of line 18, run on a store: \<^verbatim>\<open>range(after_year, current_year + 1)\<close> is the
  list of the years from \<open>after_year\<close> to \<open>current_year\<close>. The returned set is
  \<open>player_ids_to_fetch\<close> of the result.
\<close>

definition fetch_team_rosters :: "env \<Rightarrow> store \<Rightarrow> int \<Rightarrow> int \<Rightarrow> rstate" where
  "fetch_team_rosters env fs after_year current_year =
     seasons_loop env
       \<lparr>player_ids_to_fetch = {}, rfiles = fs, rtrace = []\<rparr>
       [after_year..current_year]"

section \<open>Player harvester: \<^verbatim>\<open>fetch_player_data.py\<close>\<close>

definition p_file :: "env \<Rightarrow> int \<Rightarrow> string" where
  "p_file env p_id = BASE_DATA_DIR env @ ''/players/'' @ str p_id @ ''.json''"

text \<open>Line 36: the rows other than the ``TOT'' trade summaries.\<close>

definition drop_tot :: "career_row list \<Rightarrow> career_row list" where
  "drop_tot career = filter (\<lambda>r. TEAM_ABBREVIATION r \<noteq> ''TOT'') career"

text \<open>The local variables of the function, the store and the trace.\<close>

record pstate =
  saved_count :: nat
  error_count :: nat
  skipped_count :: nat
  files :: store
  out :: "event list"

text \<open>The handler of lines 47 to 53.\<close>

definition on_error :: "int \<Rightarrow> exn \<Rightarrow> pstate \<Rightarrow> pstate" where
  "on_error p_id e st =
     (let errors = error_count st + 1 in
      st\<lparr>error_count := errors,
         out := out st @
           (if errors \<le> 10 then [Print (Error_fetching_player p_id e)]
            else if errors = 11 then [Print Suppressing]
            else [])\<rparr>)"

text \<open>
  Lines 31 to 55, one player: \<open>n\<close> is \<^verbatim>\<open>len(player_ids)\<close> and \<open>idx\<close> the position that
  \<^verbatim>\<open>enumerate(player_ids, 1)\<close> gives.
\<close>

definition player_unit :: "env \<Rightarrow> nat \<Rightarrow> nat \<Rightarrow> pstate \<Rightarrow> int \<Rightarrow> pstate" where
  "player_unit env n idx st p_id =
     (let path = p_file env p_id in
      if files st path \<noteq> None then st\<lparr>skipped_count := skipped_count st + 1\<rparr>
      else
        (case PlayerCareerStats env p_id of
           Inl e \<Rightarrow> on_error p_id e (st\<lparr>out := out st @ [Call_player_career p_id False]\<rparr>)
         | Inr fetched \<Rightarrow>
             (let career = drop_tot fetched in
              case to_json env path of
                Written \<Rightarrow>
                  st\<lparr>saved_count := saved_count st + 1,
                     files := (files st)(path \<mapsto> Career_json career),
                     out := out st @
                       [Call_player_career p_id True, Write_file path Written] @
                       (if idx mod 100 = 0 \<or> idx \<le> 5 then [Print (Progress idx n p_id)]
                        else []) @
                       [Sleep 700]\<rparr>
              | Not_created \<Rightarrow>
                  st\<lparr>error_count := error_count st + 1,
                     out := out st @
                       [Call_player_career p_id True, Write_file path Not_created,
                        Print (Player_file_not_created p_id path), Sleep 700]\<rparr>
              | Write_error e \<Rightarrow>
                  on_error p_id e
                    (st\<lparr>out := out st @
                       [Call_player_career p_id True, Write_file path (Write_error e)]\<rparr>)
              | Write_truncated e \<Rightarrow>
                  on_error p_id e
                    (st\<lparr>files := (files st)(path \<mapsto> Truncated),
                        out := out st @
                          [Call_player_career p_id True,
                           Write_file path (Write_truncated e)]\<rparr>))))"

text \<open>The loop of line 30; \<open>idx\<close> counts from 1.\<close>

fun player_loop :: "env \<Rightarrow> nat \<Rightarrow> nat \<Rightarrow> pstate \<Rightarrow> int list \<Rightarrow> pstate" where
  "player_loop env n idx st [] = st"
| "player_loop env n idx st (p_id # rest) =
     player_loop env n (idx + 1) (player_unit env n idx st p_id) rest"

text \<open>
  The function of line 18 on the sequence in which \<^verbatim>\<open>player_ids\<close> is iterated. It ends
  with the summary line 57 and has no \<^verbatim>\<open>return\<close> statement: the caller gets \<^verbatim>\<open>None\<close>,
  which is \<open>None\<close> of \<open>returned\<close>.
\<close>

record presult =
  returned :: "(nat \<times> nat \<times> nat) option"
  final :: pstate

definition fetch_player_data :: "env \<Rightarrow> store \<Rightarrow> int list \<Rightarrow> presult" where
  "fetch_player_data env fs player_ids =
     (let n = length player_ids;
          st = player_loop env n 1
                 \<lparr>saved_count = 0, error_count = 0, skipped_count = 0, files = fs,
                  out = [Print (Saving_players n)]\<rparr>
                 player_ids
      in \<lparr>returned = None,
          final = st\<lparr>out := out st @
            [Print (Complete (saved_count st) (skipped_count st) (error_count st))]\<rparr>\<rparr>)"

section \<open>Reading a trace\<close>

text \<open>The external calls: the three provider endpoints.\<close>

fun is_call :: "event \<Rightarrow> bool" where
  "is_call (Call_all_players season ok) = True"
| "is_call (Call_team_roster team_id season ok) = True"
| "is_call (Call_player_career p_id ok) = True"
| "is_call ev = False"

definition external_calls :: "event list \<Rightarrow> event list" where
  "external_calls tr = filter is_call tr"

text \<open>A call that gave a data frame.\<close>

fun call_ok :: "event \<Rightarrow> bool" where
  "call_ok (Call_all_players season ok) = ok"
| "call_ok (Call_team_roster team_id season ok) = ok"
| "call_ok (Call_player_career p_id ok) = ok"
| "call_ok ev = False"

text \<open>The team and season of each roster call, in order.\<close>

fun roster_calls :: "event list \<Rightarrow> (int \<times> string) list" where
  "roster_calls [] = []"
| "roster_calls (Call_team_roster team_id season ok # rest) =
     (team_id, season) # roster_calls rest"
| "roster_calls (ev # rest) = roster_calls rest"

text \<open>A write that came back without raising, after a fetch that gave a data frame.\<close>

fun write_returned :: "event \<Rightarrow> bool" where
  "write_returned (Write_file path Written) = True"
| "write_returned (Write_file path Not_created) = True"
| "write_returned ev = False"

fun is_sleep :: "event \<Rightarrow> bool" where
  "is_sleep (Sleep ms) = True"
| "is_sleep ev = False"

fun is_write :: "event \<Rightarrow> bool" where
  "is_write (Write_file path outcome) = True"
| "is_write ev = False"

text \<open>
  The mark of a unit that did not end with its record stored: its provider call raised
  or its write did not leave the file as written.
\<close>

fun unit_failed :: "event \<Rightarrow> bool" where
  "unit_failed (Call_team_roster team_id season ok) = (\<not> ok)"
| "unit_failed (Call_player_career p_id ok) = (\<not> ok)"
| "unit_failed (Write_file path outcome) = (outcome \<noteq> Written)"
| "unit_failed ev = False"

text \<open>A roster call or a career call that gave a data frame.\<close>

fun unit_call_ok :: "event \<Rightarrow> bool" where
  "unit_call_ok (Call_team_roster team_id season ok) = ok"
| "unit_call_ok (Call_player_career p_id ok) = ok"
| "unit_call_ok ev = False"

text \<open>
  The mark of a unit that left no file at its key: its provider call raised, or its write
  left nothing behind.
\<close>

fun left_no_file :: "event \<Rightarrow> bool" where
  "left_no_file (Call_team_roster team_id season ok) = (\<not> ok)"
| "left_no_file (Call_player_career p_id ok) = (\<not> ok)"
| "left_no_file (Write_file path Not_created) = True"
| "left_no_file (Write_file path (Write_error e)) = True"
| "left_no_file ev = False"

text \<open>A call of the listing endpoint.\<close>

fun is_listing_call :: "event \<Rightarrow> bool" where
  "is_listing_call (Call_all_players season ok) = True"
| "is_listing_call ev = False"

text \<open>The mark of a unit that ended with its record stored.\<close>

fun unit_saved :: "event \<Rightarrow> bool" where
  "unit_saved (Write_file path Written) = True"
| "unit_saved ev = False"

text \<open>The next thing a run does other than printing.\<close>

fun next_action :: "event list \<Rightarrow> event option" where
  "next_action [] = None"
| "next_action (Print m # rest) = next_action rest"
| "next_action (ev # rest) = Some ev"

text \<open>
  \<open>paced ms tr\<close>: in \<open>tr\<close>, each write that came back is followed by a pause of \<open>ms\<close>
  milliseconds before anything else but printing happens.
\<close>

fun paced :: "nat \<Rightarrow> event list \<Rightarrow> bool" where
  "paced ms [] = True"
| "paced ms (ev # rest) =
     ((if write_returned ev then next_action rest = Some (Sleep ms) else True) \<and>
      paced ms rest)"

text \<open>
  \<open>spaced ms tr\<close>: after each external call of \<open>tr\<close> that gave a data frame, a pause of
  \<open>ms\<close> milliseconds comes before the next external call, if there is one.
\<close>

fun pause_before_next_call :: "nat \<Rightarrow> event list \<Rightarrow> bool" where
  "pause_before_next_call ms [] = True"
| "pause_before_next_call ms (ev # rest) =
     (if ev = Sleep ms then True
      else if is_call ev then False
      else pause_before_next_call ms rest)"

fun spaced :: "nat \<Rightarrow> event list \<Rightarrow> bool" where
  "spaced ms [] = True"
| "spaced ms (ev # rest) =
     ((if call_ok ev then pause_before_next_call ms rest else True) \<and> spaced ms rest)"

text \<open>The events of a season before its rosters: the heading and the listing call.\<close>

definition listing_events :: "env \<Rightarrow> int \<Rightarrow> event list" where
  "listing_events env year =
     (let season = season_str year in
      case CommonAllPlayers env season of
        Inl e \<Rightarrow>
          [Print (Processing season), Call_all_players season False,
           Print (Error_in_season season e)]
      | Inr all_players \<Rightarrow> [Print (Processing season), Call_all_players season True])"

text \<open>The player identifiers of a season's listing; none when the listing call raises.\<close>

definition listed_ids :: "env \<Rightarrow> int \<Rightarrow> int set" where
  "listed_ids env year =
     (case CommonAllPlayers env (season_str year) of
        Inl e \<Rightarrow> {}
      | Inr all_players \<Rightarrow> set (map PERSON_ID all_players))"

text \<open>
  Processing a player raises inside the \<^verbatim>\<open>try\<close> block: the file is absent and the
  provider call or the write raises.
\<close>

definition unit_raises :: "env \<Rightarrow> store \<Rightarrow> int \<Rightarrow> bool" where
  "unit_raises env fs p_id =
     (fs (p_file env p_id) = None \<and>
      (case PlayerCareerStats env p_id of
         Inl e \<Rightarrow> True
       | Inr fetched \<Rightarrow>
           (case to_json env (p_file env p_id) of
              Written \<Rightarrow> False
            | Not_created \<Rightarrow> False
            | Write_error e \<Rightarrow> True
            | Write_truncated e \<Rightarrow> True)))"

section \<open>Names for parts of a run\<close>

text \<open>The rosters of one season: nothing when the listing call raises.\<close>

definition season_rosters :: "env \<Rightarrow> store \<Rightarrow> int \<Rightarrow> store \<times> event list" where
  "season_rosters env fs year =
     (case CommonAllPlayers env (season_str year) of
        Inl e \<Rightarrow> (fs, [])
      | Inr all_players \<Rightarrow> save_rosters env (season_str year) fs (valid_teams all_players))"

text \<open>Every team of the season's listing has its roster file in the store.\<close>

definition season_stored :: "env \<Rightarrow> store \<Rightarrow> int \<Rightarrow> bool" where
  "season_stored env fs year =
     (case CommonAllPlayers env (season_str year) of
        Inl e \<Rightarrow> True
      | Inr all_players \<Rightarrow>
          list_all (\<lambda>team_id. fs (team_file env team_id (season_str year)) \<noteq> None)
            (valid_teams all_players))"

section \<open>A provider and a file system to run the scripts on\<close>

text \<open>
  Season 2021-22 lists player 1 on team 5, player 2 on team 5 and the free agent 3; the
  listing of every other season raises. The roster of team 5 has one row. Player 1 has
  three career rows, one of them a ``TOT'' row; the career call of every other player
  raises. Every write succeeds.
\<close>

definition demo_roster :: "roster_row list" where
  "demo_roster = [[(''PLAYER'', JStr ''A''), (''PLAYER_ID'', JInt 1)]]"

definition demo_career :: "career_row list" where
  "demo_career =
     [\<lparr>TEAM_ABBREVIATION = ''BOS'', SEASON_ID = ''2021-22'', stats = []\<rparr>,
      \<lparr>TEAM_ABBREVIATION = ''TOT'', SEASON_ID = ''2022-23'', stats = []\<rparr>,
      \<lparr>TEAM_ABBREVIATION = ''LAL'', SEASON_ID = ''2022-23'', stats = []\<rparr>]"

definition demo_env :: env where
  "demo_env =
     \<lparr>BASE_DATA_DIR = ''data'',
      CommonAllPlayers = (\<lambda>season.
        if season = ''2021-22'' then
          Inr [\<lparr>PERSON_ID = 1, TEAM_ID = 5\<rparr>, \<lparr>PERSON_ID = 2, TEAM_ID = 5\<rparr>,
               \<lparr>PERSON_ID = 3, TEAM_ID = 0\<rparr>]
        else Inl (Exception ''timeout'')),
      CommonTeamRoster = (\<lambda>team_id season. Inr demo_roster),
      PlayerCareerStats = (\<lambda>p_id.
        if p_id = 1 then Inr demo_career else Inl (Exception ''timeout'')),
      to_json = (\<lambda>path. Written)\<rparr>"

text \<open>The same provider at a time when its roster endpoint is down.\<close>

definition down_env :: env where
  "down_env = demo_env\<lparr>CommonTeamRoster := (\<lambda>team_id season. Inl (Exception ''timeout''))\<rparr>"

text \<open>
  A provider that answers every career call with the same three rows, on a file system
  where writing the file of player 1 raises and every other write succeeds.
\<close>

definition flaky_env :: env where
  "flaky_env =
     \<lparr>BASE_DATA_DIR = ''data'',
      CommonAllPlayers = (\<lambda>season. Inl (Exception ''timeout'')),
      CommonTeamRoster = (\<lambda>team_id season. Inr demo_roster),
      PlayerCareerStats = (\<lambda>p_id. Inr demo_career),
      to_json = (\<lambda>path.
        if path = ''data/players/1.json'' then Write_error (Exception ''disk full'')
        else Written)\<rparr>"

text \<open>
  Two roster files for the index builder: the first has an entry with identifier 0, an
  entry with an empty name, an entry without identifier and the entry of player 8; the
  second names player 7 twice, as A and then as B.
\<close>

definition demo_team_files :: "(exn + json) list" where
  "demo_team_files =
     [Inr (JArr [JObj [(''PLAYER_ID'', JInt 0), (''PLAYER'', JStr ''Z'')],
                 JObj [(''PLAYER_ID'', JInt 9), (''PLAYER'', JStr [])],
                 JObj [(''PLAYER'', JStr ''Q'')],
                 JObj [(''PLAYER_ID'', JInt 8), (''PLAYER'', JStr ''C'')]]),
      Inr (JArr [JObj [(''PLAYER_ID'', JInt 7), (''PLAYER'', JStr ''A'')],
                 JObj [(''PLAYER_ID'', JInt 7), (''PLAYER'', JStr ''B'')]])]"

section \<open>The index builder keeps the first name\<close>


lemma scan_player_offers:
  "scan_player names player = Inr names' \<Longrightarrow>
     names' = (case offers player of
                 None \<Rightarrow> names
               | Some (k, name) \<Rightarrow> if names k = None then names(k \<mapsto> name) else names)"
  by (auto simp: scan_player_def offers_def split: sum.splits if_splits)


lemma scan_player_origin:
  "scan_player names player = Inr names' \<Longrightarrow> names' k = Some v \<Longrightarrow>
     names k = Some v \<or> offers player = Some (k, v)"
  by (auto dest!: scan_player_offers split: option.splits if_splits)


lemma scan_players_origin:
  "fst (scan_players names players) k = Some v \<Longrightarrow>
     names k = Some v \<or> (\<exists>player \<in> set players. offers player = Some (k, v))"
proof (induction players arbitrary: names)
  case Nil
  then show ?case by simp
next
  case (Cons player rest)
  show ?case
  proof (cases "scan_player names player")
    case (Inl e)
    with Cons.prems show ?thesis by simp
  next
    case (Inr names')
    with Cons.prems have "fst (scan_players names' rest) k = Some v" by simp
    from Cons.IH [OF this] scan_player_origin [OF Inr] show ?thesis by auto
  qed
qed



lemma scan_file_origin:
  "scan_file names loaded k = Some v \<Longrightarrow>
     names k = Some v \<or> (\<exists>player \<in> set (elements loaded). offers player = Some (k, v))"
  by (auto simp: scan_file_def elements_def split: sum.splits dest: scan_players_origin)


lemma scan_files_origin:
  "scan_files names team_files k = Some v \<Longrightarrow>
     names k = Some v \<or>
     (\<exists>loaded \<in> set team_files. \<exists>player \<in> set (elements loaded). offers player = Some (k, v))"
proof (induction team_files arbitrary: names)
  case Nil
  then show ?case by simp
next
  case (Cons loaded rest)
  from Cons.IH [of "scan_file names loaded"] Cons.prems
  have "scan_file names loaded k = Some v \<or>
     (\<exists>l \<in> set rest. \<exists>player \<in> set (elements l). offers player = Some (k, v))"
    by simp
  then show ?case using scan_file_origin [of names loaded k v] by auto
qed


lemma offers_fields:
  "offers player = Some (k, name) \<longleftrightarrow>
     (\<exists>player_id. py_get player ''PLAYER_ID'' = Inr player_id \<and>
        py_get player ''PLAYER'' = Inr name \<and> truthy player_id \<and> truthy name \<and>
        hash_key player_id = Inr k)"
  by (auto simp: offers_def split: sum.splits if_splits)



text \<open>
  C10. An entry of the index comes from a scanned roster element whose \<^verbatim>\<open>PLAYER_ID\<close> and
  \<^verbatim>\<open>PLAYER\<close> are both present and truthy, and scanning an element changes the index only
  when both are: an element with a missing, zero or empty identifier or an empty name
  adds nothing.
\<close>

theorem only_truthy_entries_reach_the_index:
  "(player_names team_files k = Some name \<longrightarrow>
      (\<exists>loaded \<in> set team_files. \<exists>player \<in> set (elements loaded). \<exists>player_id.
         py_get player ''PLAYER_ID'' = Inr player_id \<and> py_get player ''PLAYER'' = Inr name \<and>
         truthy player_id \<and> truthy name \<and> hash_key player_id = Inr k)) \<and>
   (fst (scan_players names [player]) \<noteq> names \<longrightarrow>
      (\<exists>player_id player_name.
         py_get player ''PLAYER_ID'' = Inr player_id \<and>
         py_get player ''PLAYER'' = Inr player_name \<and>
         truthy player_id \<and> truthy player_name))"
proof (intro conjI impI)
  assume "player_names team_files k = Some name"
  from scan_files_origin [OF this [unfolded player_names_def]]
  show "\<exists>loaded \<in> set team_files. \<exists>player \<in> set (elements loaded). \<exists>player_id.
         py_get player ''PLAYER_ID'' = Inr player_id \<and> py_get player ''PLAYER'' = Inr name \<and>
         truthy player_id \<and> truthy name \<and> hash_key player_id = Inr k"
    by (simp add: offers_fields)
next
  assume "fst (scan_players names [player]) \<noteq> names"
  then show "\<exists>player_id player_name.
         py_get player ''PLAYER_ID'' = Inr player_id \<and>
         py_get player ''PLAYER'' = Inr player_name \<and>
         truthy player_id \<and> truthy player_name"
    by (auto simp: scan_player_def split: sum.splits if_splits)
qed

theorem only_truthy_entries_reach_the_index_witness:
  "player_names demo_team_files (KInt 8) = Some (JStr ''C'') \<and>
   player_names demo_team_files (KInt 9) = None \<and>
   player_names demo_team_files (KInt 0) = None \<and>
   (\<exists>loaded \<in> set demo_team_files. \<exists>player \<in> set (elements loaded). \<exists>player_id.
      py_get player ''PLAYER_ID'' = Inr player_id \<and> py_get player ''PLAYER'' = Inr (JStr ''C'') \<and>
      truthy player_id \<and> truthy (JStr ''C'') \<and> hash_key player_id = Inr (KInt 8)) \<and>
   fst (scan_players Map.empty [JObj [(''PLAYER_ID'', JInt 8), (''PLAYER'', JStr ''C'')]])
     \<noteq> Map.empty"
proof -
  have found: "player_names demo_team_files (KInt 8) = Some (JStr ''C'')"
    by (simp add: player_names_def demo_team_files_def scan_file_def scan_player_def)
  have absent: "player_names demo_team_files (KInt 9) = None"
    "player_names demo_team_files (KInt 0) = None"
    by (simp_all add: player_names_def demo_team_files_def scan_file_def scan_player_def)
  have changed:
    "fst (scan_players Map.empty [JObj [(''PLAYER_ID'', JInt 8), (''PLAYER'', JStr ''C'')]])
       \<noteq> Map.empty"
    by (simp add: scan_player_def)
  from only_truthy_entries_reach_the_index
    [of demo_team_files "KInt 8" "JStr ''C''" Map.empty
        "JObj [(''PLAYER_ID'', JInt 8), (''PLAYER'', JStr ''C'')]"]
    found absent changed
  show ?thesis by blast
qed

section \<open>Facts about the roster harvester\<close>

subsection \<open>One roster unit\<close>

lemma save_roster_skip:
  "fs (team_file env team_id season) \<noteq> None \<Longrightarrow> save_roster env season fs team_id = (fs, [])"
  by (simp add: save_roster_def)

lemma save_roster_frame:
  "save_roster env season fs team_id = (fs', evs) \<Longrightarrow> fs path = Some v \<Longrightarrow> fs' path = Some v"
  by (auto simp: save_roster_def Let_def split: if_splits sum.splits write_outcome.splits)

lemma save_roster_stored:
  "save_roster env season fs team_id = (fs', evs) \<Longrightarrow> \<forall>ev \<in> set evs. \<not> left_no_file ev \<Longrightarrow>
     fs' (team_file env team_id season) \<noteq> None"
  by (auto simp: save_roster_def Let_def split: if_splits sum.splits write_outcome.splits)

lemma save_roster_paced:
  "save_roster env season fs team_id = (fs', evs) \<Longrightarrow>
     paced 800 evs \<and> length (filter is_sleep evs) = length (filter write_returned evs) \<and>
     (\<forall>ev \<in> set evs. is_sleep ev \<longrightarrow> ev = Sleep 800)"
  by (auto simp: save_roster_def Let_def split: if_splits sum.splits write_outcome.splits)

lemma save_roster_events:
  "save_roster env season fs team_id = (fs', evs) \<Longrightarrow> ev \<in> set evs \<Longrightarrow>
     (\<exists>m. ev = Print m) \<or> (\<exists>ok. ev = Call_team_roster team_id season ok) \<or>
     (\<exists>outcome. ev = Write_file (team_file env team_id season) outcome) \<or> ev = Sleep 800"
  by (auto simp: save_roster_def Let_def split: if_splits sum.splits write_outcome.splits)

lemma save_roster_calls:
  "save_roster env season fs team_id = (fs', evs) \<Longrightarrow>
     roster_calls evs = [] \<or> roster_calls evs = [(team_id, season)]"
  by (auto simp: save_roster_def Let_def split: if_splits sum.splits write_outcome.splits)

subsection \<open>The teams of a season\<close>

lemma save_rosters_frame:
  "save_rosters env season fs teams = (fs', evs) \<Longrightarrow> fs path = Some v \<Longrightarrow> fs' path = Some v"
proof (induction teams arbitrary: fs fs' evs)
  case Nil
  then show ?case by simp
next
  case (Cons team_id rest)
  obtain fs1 evs1 where one: "save_roster env season fs team_id = (fs1, evs1)"
    by (cases "save_roster env season fs team_id")
  obtain fs2 evs2 where more: "save_rosters env season fs1 rest = (fs2, evs2)"
    by (cases "save_rosters env season fs1 rest")
  from Cons.prems one more have "fs' = fs2" by simp
  moreover from save_roster_frame [OF one Cons.prems(2)] have "fs1 path = Some v" .
  ultimately show ?case using Cons.IH [OF more] by simp
qed

lemma save_rosters_skip:
  "\<forall>team_id \<in> set teams. fs (team_file env team_id season) \<noteq> None \<Longrightarrow>
     save_rosters env season fs teams = (fs, [])"
  by (induction teams) (simp_all add: save_roster_skip)

lemma save_rosters_stored:
  "save_rosters env season fs teams = (fs', evs) \<Longrightarrow> \<forall>ev \<in> set evs. \<not> left_no_file ev \<Longrightarrow>
     team_id \<in> set teams \<Longrightarrow> fs' (team_file env team_id season) \<noteq> None"
proof (induction teams arbitrary: fs fs' evs)
  case Nil
  then show ?case by simp
next
  case (Cons t rest)
  obtain fs1 evs1 where one: "save_roster env season fs t = (fs1, evs1)"
    by (cases "save_roster env season fs t")
  obtain fs2 evs2 where more: "save_rosters env season fs1 rest = (fs2, evs2)"
    by (cases "save_rosters env season fs1 rest")
  from Cons.prems(1) one more have eq: "fs' = fs2" "evs = evs1 @ evs2" by simp_all
  with Cons.prems(2) have ok1: "\<forall>ev \<in> set evs1. \<not> left_no_file ev"
    and ok2: "\<forall>ev \<in> set evs2. \<not> left_no_file ev" by simp_all
  show ?case
  proof (cases "team_id = t")
    case True
    from save_roster_stored [OF one ok1] obtain v where "fs1 (team_file env t season) = Some v"
      by auto
    from save_rosters_frame [OF more this] True eq show ?thesis by simp
  next
    case False
    with Cons.prems(3) have "team_id \<in> set rest" by simp
    from Cons.IH [OF more ok2 this] eq show ?thesis by simp
  qed
qed

lemma next_action_append:
  "next_action xs = Some ev \<Longrightarrow> next_action (xs @ ys) = Some ev"
  by (induction xs rule: next_action.induct) auto

lemma paced_append: "paced ms xs \<Longrightarrow> paced ms ys \<Longrightarrow> paced ms (xs @ ys)"
  by (induction xs) (auto simp: next_action_append)

lemma save_rosters_paced:
  "save_rosters env season fs teams = (fs', evs) \<Longrightarrow>
     paced 800 evs \<and> length (filter is_sleep evs) = length (filter write_returned evs) \<and>
     (\<forall>ev \<in> set evs. is_sleep ev \<longrightarrow> ev = Sleep 800)"
proof (induction teams arbitrary: fs fs' evs)
  case Nil
  then show ?case by simp
next
  case (Cons t rest)
  obtain fs1 evs1 where one: "save_roster env season fs t = (fs1, evs1)"
    by (cases "save_roster env season fs t")
  obtain fs2 evs2 where more: "save_rosters env season fs1 rest = (fs2, evs2)"
    by (cases "save_rosters env season fs1 rest")
  from Cons.prems(1) one more have eq: "evs = evs1 @ evs2" by simp
  from save_roster_paced [OF one] Cons.IH [OF more] show ?case
    unfolding eq by (auto simp: paced_append)
qed

lemma save_rosters_events:
  "save_rosters env season fs teams = (fs', evs) \<Longrightarrow> ev \<in> set evs \<Longrightarrow>
     (\<exists>m. ev = Print m) \<or> ev = Sleep 800 \<or>
     (\<exists>team_id \<in> set teams. (\<exists>ok. ev = Call_team_roster team_id season ok) \<or>
        (\<exists>outcome. ev = Write_file (team_file env team_id season) outcome))"
proof (induction teams arbitrary: fs fs' evs)
  case Nil
  then show ?case by simp
next
  case (Cons t rest)
  obtain fs1 evs1 where one: "save_roster env season fs t = (fs1, evs1)"
    by (cases "save_roster env season fs t")
  obtain fs2 evs2 where more: "save_rosters env season fs1 rest = (fs2, evs2)"
    by (cases "save_rosters env season fs1 rest")
  from Cons.prems(1) one more have eq: "evs = evs1 @ evs2" by simp
  with Cons.prems(2) consider "ev \<in> set evs1" | "ev \<in> set evs2" by auto
  then show ?case
  proof cases
    case 1
    from save_roster_events [OF one this] show ?thesis by auto
  next
    case 2
    from Cons.IH [OF more this] show ?thesis by auto
  qed
qed

lemma roster_calls_append: "roster_calls (xs @ ys) = roster_calls xs @ roster_calls ys"
  by (induction xs rule: roster_calls.induct) auto

lemma save_rosters_calls:
  "save_rosters env season fs teams = (fs', evs) \<Longrightarrow>
     set (map fst (roster_calls evs)) \<subseteq> set teams \<and>
     (distinct teams \<longrightarrow> distinct (map fst (roster_calls evs)))"
proof (induction teams arbitrary: fs fs' evs)
  case Nil
  then show ?case by simp
next
  case (Cons t rest)
  obtain fs1 evs1 where one: "save_roster env season fs t = (fs1, evs1)"
    by (cases "save_roster env season fs t")
  obtain fs2 evs2 where more: "save_rosters env season fs1 rest = (fs2, evs2)"
    by (cases "save_rosters env season fs1 rest")
  from Cons.prems(1) one more have eq: "evs = evs1 @ evs2" by simp
  from save_roster_calls [OF one] Cons.IH [OF more] show ?case
    unfolding eq by (auto simp: roster_calls_append)
qed

subsection \<open>unique\<close>

lemma set_unique: "set (unique xs) = set xs"
  by (induction xs rule: unique.induct) auto

lemma distinct_unique: "distinct (unique xs)"
  by (induction xs rule: unique.induct) (auto simp: set_unique)

lemma valid_teams_nonzero: "0 \<notin> set (valid_teams all_players)"
  by (auto simp: valid_teams_def set_unique)

lemma distinct_valid_teams: "distinct (valid_teams all_players)"
  by (simp add: valid_teams_def distinct_unique)

subsection \<open>One season and the whole range\<close>

lemma process_season_eq:
  "process_season env st year =
     \<lparr>player_ids_to_fetch = player_ids_to_fetch st \<union> listed_ids env year,
      rfiles = fst (season_rosters env (rfiles st) year),
      rtrace = rtrace st @ listing_events env year @ snd (season_rosters env (rfiles st) year)\<rparr>"
  by (cases st)
    (auto simp: process_season_def listed_ids_def season_rosters_def listing_events_def Let_def
      split: sum.splits prod.splits)

lemma season_rosters_frame:
  "fs path = Some v \<Longrightarrow> fst (season_rosters env fs year) path = Some v"
  by (auto simp: season_rosters_def split: sum.splits dest: save_rosters_frame [OF surjective_pairing])

lemma season_rosters_skip:
  "season_stored env fs year \<Longrightarrow> season_rosters env fs year = (fs, [])"
  by (auto simp: season_rosters_def season_stored_def list_all_iff save_rosters_skip
      split: sum.splits)

lemma season_rosters_stored:
  "\<forall>ev \<in> set (snd (season_rosters env fs year)). \<not> left_no_file ev \<Longrightarrow>
     season_stored env (fst (season_rosters env fs year)) year"
  by (auto simp: season_rosters_def season_stored_def list_all_iff split: sum.splits
      dest: save_rosters_stored [OF surjective_pairing])

lemma season_stored_mono:
  "season_stored env fs year \<Longrightarrow> \<forall>path v. fs path = Some v \<longrightarrow> fs' path = Some v \<Longrightarrow>
     season_stored env fs' year"
  by (fastforce simp: season_stored_def list_all_iff split: sum.splits)

lemma season_stored_cong:
  "CommonAllPlayers env2 = CommonAllPlayers env1 \<Longrightarrow> BASE_DATA_DIR env2 = BASE_DATA_DIR env1 \<Longrightarrow>
     season_stored env2 fs year = season_stored env1 fs year"
proof -
  assume "CommonAllPlayers env2 = CommonAllPlayers env1" "BASE_DATA_DIR env2 = BASE_DATA_DIR env1"
  moreover from this have "team_file env2 = team_file env1"
    by (intro ext) (simp add: team_file_def)
  ultimately show ?thesis by (simp add: season_stored_def split: sum.splits)
qed

lemma seasons_loop_ids:
  "player_ids_to_fetch (seasons_loop env st years) =
     player_ids_to_fetch st \<union> (\<Union>year \<in> set years. listed_ids env year)"
  by (induction years arbitrary: st) (auto simp: process_season_eq)

lemma seasons_loop_frame:
  "rfiles st path = Some v \<Longrightarrow> rfiles (seasons_loop env st years) path = Some v"
  by (induction years arbitrary: st) (auto simp: process_season_eq season_rosters_frame)

lemma seasons_loop_trace:
  "\<exists>evs. rtrace (seasons_loop env st years) = rtrace st @ evs"
proof (induction years arbitrary: st)
  case Nil
  then show ?case by simp
next
  case (Cons year rest)
  from Cons.IH [of "process_season env st year"] show ?case
    by (auto simp: process_season_eq)
qed

lemma seasons_loop_rerun:
  "\<forall>year \<in> set years. season_stored env (rfiles st) year \<Longrightarrow>
     seasons_loop env st years =
       \<lparr>player_ids_to_fetch = player_ids_to_fetch st \<union> (\<Union>year \<in> set years. listed_ids env year),
        rfiles = rfiles st,
        rtrace = rtrace st @ concat (map (listing_events env) years)\<rparr>"
proof (induction years arbitrary: st)
  case Nil
  then show ?case by simp
next
  case (Cons year rest)
  then have here: "season_rosters env (rfiles st) year = (rfiles st, [])"
    by (simp add: season_rosters_skip)
  have "rfiles (process_season env st year) = rfiles st"
    by (simp add: process_season_eq here)
  with Cons.prems have "\<forall>y \<in> set rest. season_stored env (rfiles (process_season env st year)) y"
    by simp
  from Cons.IH [OF this] show ?case
    by (simp add: process_season_eq here Un_assoc)
qed

lemma seasons_loop_stored:
  "\<forall>ev \<in> set (rtrace (seasons_loop env st years)). \<not> left_no_file ev \<Longrightarrow> year \<in> set years \<Longrightarrow>
     season_stored env (rfiles (seasons_loop env st years)) year"
proof (induction years arbitrary: st)
  case Nil
  then show ?case by simp
next
  case (Cons y rest)
  let ?st1 = "process_season env st y"
  from Cons.prems(1) have all: "\<forall>ev \<in> set (rtrace (seasons_loop env ?st1 rest)). \<not> left_no_file ev"
    by simp
  show ?case
  proof (cases "year \<in> set rest")
    case True
    from Cons.IH [OF all True] show ?thesis by simp
  next
    case False
    with Cons.prems(2) have "year = y" by simp
    obtain evs where "rtrace (seasons_loop env ?st1 rest) = rtrace ?st1 @ evs"
      using seasons_loop_trace by blast
    with all have "\<forall>ev \<in> set (snd (season_rosters env (rfiles st) y)). \<not> left_no_file ev"
      by (simp add: process_season_eq)
    from season_rosters_stored [OF this]
    have "season_stored env (rfiles ?st1) y" by (simp add: process_season_eq)
    then have "season_stored env (rfiles (seasons_loop env ?st1 rest)) y"
      by (rule season_stored_mono) (simp add: seasons_loop_frame)
    with \<open>year = y\<close> show ?thesis by simp
  qed
qed

lemma external_calls_listing:
  "external_calls (concat (map (listing_events env) years)) =
     map (\<lambda>year. Call_all_players (season_str year)
            (case CommonAllPlayers env (season_str year) of Inl e \<Rightarrow> False | Inr l \<Rightarrow> True))
       years"
  by (induction years) (auto simp: external_calls_def listing_events_def Let_def split: sum.splits)

lemma listing_events_quiet:
  "ev \<in> set (listing_events env year) \<Longrightarrow> \<not> is_sleep ev \<and> \<not> is_write ev \<and> \<not> write_returned ev"
  by (cases "CommonAllPlayers env (season_str year)") (auto simp: listing_events_def Let_def)

lemma quiet_listing:
  "ev \<in> set (concat (map (listing_events env) years)) \<Longrightarrow> \<not> is_sleep ev \<and> \<not> is_write ev"
  using listing_events_quiet by auto

lemma save_roster_no_listing:
  "save_roster env season fs team_id = (fs', evs) \<Longrightarrow> filter is_listing_call evs = []"
  by (auto simp: save_roster_def Let_def split: if_splits sum.splits write_outcome.splits)

lemma save_rosters_no_listing:
  "save_rosters env season fs teams = (fs', evs) \<Longrightarrow> filter is_listing_call evs = []"
proof (induction teams arbitrary: fs fs' evs)
  case Nil
  then show ?case by simp
next
  case (Cons t rest)
  obtain fs1 evs1 where one: "save_roster env season fs t = (fs1, evs1)"
    by (cases "save_roster env season fs t")
  obtain fs2 evs2 where more: "save_rosters env season fs1 rest = (fs2, evs2)"
    by (cases "save_rosters env season fs1 rest")
  from Cons.prems one more have eq: "evs = evs1 @ evs2" by simp
  from save_roster_no_listing [OF one] Cons.IH [OF more] show ?case
    unfolding eq by simp
qed

lemma season_rosters_no_listing:
  "filter is_listing_call (snd (season_rosters env fs year)) = []"
proof (cases "CommonAllPlayers env (season_str year)")
  case (Inl e)
  then show ?thesis by (simp add: season_rosters_def)
next
  case (Inr all_players)
  from save_rosters_no_listing [OF surjective_pairing, of env "season_str year" fs
      "valid_teams all_players"] Inr
  show ?thesis by (simp add: season_rosters_def)
qed

lemma listing_events_call:
  "filter is_listing_call (listing_events env year) =
     [Call_all_players (season_str year)
        (case CommonAllPlayers env (season_str year) of Inl e \<Rightarrow> False | Inr l \<Rightarrow> True)]"
  by (cases "CommonAllPlayers env (season_str year)") (simp_all add: listing_events_def Let_def)

lemma seasons_loop_listing_calls:
  "filter is_listing_call (rtrace (seasons_loop env st years)) =
     filter is_listing_call (rtrace st) @
     map (\<lambda>year. Call_all_players (season_str year)
            (case CommonAllPlayers env (season_str year) of Inl e \<Rightarrow> False | Inr l \<Rightarrow> True))
       years"
  by (induction years arbitrary: st)
    (simp_all add: process_season_eq listing_events_call season_rosters_no_listing)

text \<open>
  C1, as the code has it. A second run over the same range, on the store the first run
  left and with the same listings, calls the listing endpoint once for each season again,
  whatever happened in the first run. When every roster unit of the first run left a file
  at its key (no roster call raised and every write left a file), the second run makes no
  other external call, writes nothing, never pauses and leaves the store as it was. The
  roster endpoint and the file system of the second run are arbitrary.
\<close>

theorem rerun_fetches_only_listings:
  assumes first: "run1 = fetch_team_rosters env fs after_year current_year"
    and same: "CommonAllPlayers env2 = CommonAllPlayers env" "BASE_DATA_DIR env2 = BASE_DATA_DIR env"
    and second: "run2 = fetch_team_rosters env2 (rfiles run1) after_year current_year"
  shows "filter is_listing_call (rtrace run2) =
           map (\<lambda>year. Call_all_players (season_str year)
                  (case CommonAllPlayers env (season_str year) of Inl e \<Rightarrow> False | Inr l \<Rightarrow> True))
             [after_year..current_year] \<and>
         ((\<forall>ev \<in> set (rtrace run1). \<not> left_no_file ev) \<longrightarrow>
            rfiles run2 = rfiles run1 \<and>
            external_calls (rtrace run2) =
              map (\<lambda>year. Call_all_players (season_str year)
                     (case CommonAllPlayers env (season_str year) of
                        Inl e \<Rightarrow> False | Inr l \<Rightarrow> True))
                [after_year..current_year] \<and>
            (\<forall>ev \<in> set (rtrace run2). \<not> is_sleep ev \<and> \<not> is_write ev))"
proof (intro conjI impI)
  show "filter is_listing_call (rtrace run2) =
           map (\<lambda>year. Call_all_players (season_str year)
                  (case CommonAllPlayers env (season_str year) of Inl e \<Rightarrow> False | Inr l \<Rightarrow> True))
             [after_year..current_year]"
    by (simp add: second fetch_team_rosters_def seasons_loop_listing_calls same)
next
  let ?years = "[after_year..current_year]"
  let ?st = "\<lparr>player_ids_to_fetch = {}, rfiles = rfiles run1, rtrace = []\<rparr>"
  assume stored: "\<forall>ev \<in> set (rtrace run1). \<not> left_no_file ev"
  have "\<forall>year \<in> set ?years. season_stored env (rfiles run1) year"
    using seasons_loop_stored stored unfolding first fetch_team_rosters_def by blast
  then have "\<forall>year \<in> set ?years. season_stored env2 (rfiles ?st) year"
    by (simp add: season_stored_cong [OF same])
  from seasons_loop_rerun [OF this]
  have run2: "run2 = \<lparr>player_ids_to_fetch = (\<Union>year \<in> set ?years. listed_ids env2 year),
        rfiles = rfiles run1, rtrace = concat (map (listing_events env2) ?years)\<rparr>"
    by (simp add: second fetch_team_rosters_def)
  show "rfiles run2 = rfiles run1"
    by (simp add: run2)
  show "external_calls (rtrace run2) =
              map (\<lambda>year. Call_all_players (season_str year)
                     (case CommonAllPlayers env (season_str year) of
                        Inl e \<Rightarrow> False | Inr l \<Rightarrow> True))
                [after_year..current_year]"
    by (simp add: run2 external_calls_listing same)
  show "\<forall>ev \<in> set (rtrace run2). \<not> is_sleep ev \<and> \<not> is_write ev"
    using quiet_listing [of _ env2 ?years] by (simp add: run2)
qed

text \<open>
  After a first run that stored the roster of team 5, the second run makes the two
  listing calls and nothing else. After a first run in which the roster call raised, the
  second run makes the listing call of season 2021-22 once, and the roster call again.
\<close>

theorem rerun_fetches_only_listings_witness:
  "filter left_no_file (rtrace (fetch_team_rosters demo_env Map.empty 2021 2022)) = [] \<and>
   Call_team_roster 5 ''2021-22'' True
     \<in> set (rtrace (fetch_team_rosters demo_env Map.empty 2021 2022)) \<and>
   rfiles (fetch_team_rosters demo_env
             (rfiles (fetch_team_rosters demo_env Map.empty 2021 2022)) 2021 2022) =
     rfiles (fetch_team_rosters demo_env Map.empty 2021 2022) \<and>
   external_calls (rtrace (fetch_team_rosters demo_env
             (rfiles (fetch_team_rosters demo_env Map.empty 2021 2022)) 2021 2022)) =
     map (\<lambda>year. Call_all_players (season_str year)
            (case CommonAllPlayers demo_env (season_str year) of
               Inl e \<Rightarrow> False | Inr l \<Rightarrow> True))
       [2021..2022] \<and>
   filter left_no_file (rtrace (fetch_team_rosters down_env Map.empty 2021 2021)) =
     [Call_team_roster 5 ''2021-22'' False] \<and>
   filter is_listing_call (rtrace (fetch_team_rosters demo_env
             (rfiles (fetch_team_rosters down_env Map.empty 2021 2021)) 2021 2021)) =
     map (\<lambda>year. Call_all_players (season_str year)
            (case CommonAllPlayers down_env (season_str year) of
               Inl e \<Rightarrow> False | Inr l \<Rightarrow> True))
       [2021..2021]"
proof -
  have trace: "rtrace (fetch_team_rosters demo_env Map.empty 2021 2022) =
      [Print (Processing ''2021-22''), Call_all_players ''2021-22'' True,
       Print (Fetching_roster 5 ''2021-22''), Call_team_roster 5 ''2021-22'' True,
       Write_file ''data/teams/5_2021-22.json'' Written,
       Print (Saved_to ''data/teams/5_2021-22.json''), Sleep 800,
       Print (Processing ''2022-23''), Call_all_players ''2022-23'' False,
       Print (Error_in_season ''2022-23'' (Exception ''timeout''))]"
    by (simp add: fetch_team_rosters_def process_season_def demo_env_def season_str_def
        str_def digits.simps valid_teams_def save_roster_def team_file_def Let_def)
  have stored: "\<forall>ev \<in> set (rtrace (fetch_team_rosters demo_env Map.empty 2021 2022)).
      \<not> left_no_file ev"
    by (simp add: trace)
  have failed: "filter left_no_file (rtrace (fetch_team_rosters down_env Map.empty 2021 2021)) =
     [Call_team_roster 5 ''2021-22'' False]"
    by (simp add: fetch_team_rosters_def process_season_def demo_env_def down_env_def
        season_str_def str_def digits.simps valid_teams_def save_roster_def team_file_def Let_def)
  have same: "CommonAllPlayers demo_env = CommonAllPlayers down_env"
    "BASE_DATA_DIR demo_env = BASE_DATA_DIR down_env"
    by (simp_all add: down_env_def)
  from rerun_fetches_only_listings [OF refl refl refl refl, of demo_env Map.empty 2021 2022] stored
  have clean: "rfiles (fetch_team_rosters demo_env
             (rfiles (fetch_team_rosters demo_env Map.empty 2021 2022)) 2021 2022) =
     rfiles (fetch_team_rosters demo_env Map.empty 2021 2022)"
    "external_calls (rtrace (fetch_team_rosters demo_env
             (rfiles (fetch_team_rosters demo_env Map.empty 2021 2022)) 2021 2022)) =
     map (\<lambda>year. Call_all_players (season_str year)
            (case CommonAllPlayers demo_env (season_str year) of
               Inl e \<Rightarrow> False | Inr l \<Rightarrow> True))
       [2021..2022]"
    by blast+
  from rerun_fetches_only_listings [OF refl same refl, of Map.empty 2021 2021]
  have again: "filter is_listing_call (rtrace (fetch_team_rosters demo_env
             (rfiles (fetch_team_rosters down_env Map.empty 2021 2021)) 2021 2021)) =
     map (\<lambda>year. Call_all_players (season_str year)
            (case CommonAllPlayers down_env (season_str year) of
               Inl e \<Rightarrow> False | Inr l \<Rightarrow> True))
       [2021..2021]"
    by blast
  have none: "filter left_no_file (rtrace (fetch_team_rosters demo_env Map.empty 2021 2022)) = []"
    by (simp add: trace)
  have call: "Call_team_roster 5 ''2021-22'' True
     \<in> set (rtrace (fetch_team_rosters demo_env Map.empty 2021 2022))"
    by (simp add: trace)
  show ?thesis by (intro conjI none call clean failed again)
qed

text \<open>
  The claim as it is written fails. After a first run that stored the only roster of
  season 2021-22, the second run still calls the provider for the listing. After a first
  run in which the roster call raised, a second run with the same listings calls the
  roster endpoint again and, the endpoint being back, changes the store.
\<close>

theorem rerun_counterexample:
  "external_calls (rtrace (fetch_team_rosters demo_env
      (rfiles (fetch_team_rosters demo_env Map.empty 2021 2021)) 2021 2021)) \<noteq> [] \<and>
   CommonAllPlayers down_env = CommonAllPlayers demo_env \<and>
   rfiles (fetch_team_rosters down_env Map.empty 2021 2021) ''data/teams/5_2021-22.json'' = None \<and>
   rfiles (fetch_team_rosters demo_env
      (rfiles (fetch_team_rosters down_env Map.empty 2021 2021)) 2021 2021)
      ''data/teams/5_2021-22.json'' = Some (Roster_json demo_roster) \<and>
   Call_team_roster 5 ''2021-22'' True
     \<in> set (rtrace (fetch_team_rosters demo_env
          (rfiles (fetch_team_rosters down_env Map.empty 2021 2021)) 2021 2021))"
  by (simp add: fetch_team_rosters_def process_season_def demo_env_def down_env_def
      season_str_def str_def digits.simps valid_teams_def save_roster_def team_file_def Let_def
      external_calls_def)

subsection \<open>Team 0 has no file of its own\<close>

lemma digits_nonempty: "digits n \<noteq> []"
  by (subst digits.simps) simp

lemma digit_nonzero: "0 < n \<Longrightarrow> n < 10 \<Longrightarrow> ''0123456789'' ! n \<noteq> CHR ''0''"
  by (simp add: nth_Cons')

lemma hd_digits: "0 < n \<Longrightarrow> hd (digits n) \<noteq> CHR ''0''"
proof (induction n rule: digits.induct)
  case (1 n)
  show ?case
  proof (cases "n < 10")
    case True
    have digit: "''0123456789'' ! n \<noteq> CHR ''0''"
      using "1.prems" True by (rule digit_nonzero)
    have "digits n = [''0123456789'' ! n]"
      using True by (subst digits.simps) (simp only: if_True)
    with digit show ?thesis by simp
  next
    case False
    then have "0 < n div 10" by simp
    from "1.IH" [OF False this] False show ?thesis
      by (subst digits.simps) (simp add: digits_nonempty)
  qed
qed

lemma str_nonzero: "team_id \<noteq> 0 \<Longrightarrow> \<exists>c cs. str team_id = c # cs \<and> c \<noteq> CHR ''0''"
proof (cases "team_id < 0")
  case True
  then show ?thesis by (simp add: str_def)
next
  case False
  assume "team_id \<noteq> 0"
  with False have "0 < nat team_id" by simp
  from hd_digits [OF this] digits_nonempty [of "nat team_id"] False show ?thesis
    by (cases "digits (nat team_id)") (simp_all add: str_def)
qed

lemma str_zero: "str 0 = ''0''"
  by (simp add: str_def digits.simps)

lemma team_file_zero:
  "team_file env team_id season = team_file env 0 season' \<Longrightarrow> team_id = 0"
proof (rule ccontr)
  assume same: "team_file env team_id season = team_file env 0 season'" and "team_id \<noteq> 0"
  from str_nonzero [OF this(2)] obtain c cs where "str team_id = c # cs" "c \<noteq> CHR ''0''"
    by blast
  with same show False by (simp add: team_file_def str_zero)
qed

subsection \<open>What a run of the roster harvester leaves in its trace\<close>

lemma season_rosters_events:
  "ev \<in> set (snd (season_rosters env fs year)) \<Longrightarrow>
     (\<exists>m. ev = Print m) \<or> ev = Sleep 800 \<or>
     (\<exists>team_id season. team_id \<noteq> 0 \<and> ((\<exists>ok. ev = Call_team_roster team_id season ok) \<or>
        (\<exists>outcome. ev = Write_file (team_file env team_id season) outcome)))"
proof (cases "CommonAllPlayers env (season_str year)")
  case (Inl e)
  assume "ev \<in> set (snd (season_rosters env fs year))"
  with Inl show ?thesis by (simp add: season_rosters_def)
next
  case (Inr all_players)
  assume "ev \<in> set (snd (season_rosters env fs year))"
  with Inr have "ev \<in> set (snd (save_rosters env (season_str year) fs (valid_teams all_players)))"
    by (simp add: season_rosters_def)
  from save_rosters_events [OF surjective_pairing this] valid_teams_nonzero [of all_players]
  show ?thesis by metis
qed

lemma listing_events_kind:
  "ev \<in> set (listing_events env year) \<Longrightarrow>
     (\<exists>m. ev = Print m) \<or> (\<exists>season ok. ev = Call_all_players season ok)"
  by (cases "CommonAllPlayers env (season_str year)") (auto simp: listing_events_def Let_def)

lemma seasons_loop_events:
  "ev \<in> set (rtrace (seasons_loop env st years)) \<Longrightarrow>
     ev \<in> set (rtrace st) \<or> (\<exists>m. ev = Print m) \<or> ev = Sleep 800 \<or>
     (\<exists>season ok. ev = Call_all_players season ok) \<or>
     (\<exists>team_id season. team_id \<noteq> 0 \<and> ((\<exists>ok. ev = Call_team_roster team_id season ok) \<or>
        (\<exists>outcome. ev = Write_file (team_file env team_id season) outcome)))"
  (is "_ \<Longrightarrow> _ \<or> ?new")
proof (induction years arbitrary: st)
  case Nil
  then show ?case by simp
next
  case (Cons year rest)
  let ?st1 = "process_season env st year"
  from Cons.prems have "ev \<in> set (rtrace (seasons_loop env ?st1 rest))" by simp
  from Cons.IH [OF this] have "ev \<in> set (rtrace ?st1) \<or> ?new" .
  moreover have "?new" if "ev \<in> set (listing_events env year)"
    using listing_events_kind [OF that] by blast
  moreover have "?new" if "ev \<in> set (snd (season_rosters env (rfiles st) year))"
    using season_rosters_events [OF that] by blast
  moreover have "set (rtrace ?st1) = set (rtrace st) \<union> set (listing_events env year) \<union>
      set (snd (season_rosters env (rfiles st) year))"
    by (simp add: process_season_eq Un_assoc)
  ultimately show ?case by blast
qed

lemma season_rosters_distinct:
  "distinct (map fst (roster_calls (snd (season_rosters env fs year))))"
proof (cases "CommonAllPlayers env (season_str year)")
  case (Inl e)
  then show ?thesis by (simp add: season_rosters_def)
next
  case (Inr all_players)
  from save_rosters_calls [OF surjective_pairing, of env "season_str year" fs "valid_teams all_players"]
    distinct_valid_teams [of all_players] Inr
  show ?thesis by (simp add: season_rosters_def)
qed

lemma roster_calls_listing: "roster_calls (listing_events env year) = []"
  by (cases "CommonAllPlayers env (season_str year)") (auto simp: listing_events_def Let_def)

lemma paced_iff_append: "paced ms xs \<Longrightarrow> paced ms (xs @ ys) = paced ms ys"
  by (induction xs) (auto simp: next_action_append)

lemma listing_events_paced: "paced ms (listing_events env year)"
  by (cases "CommonAllPlayers env (season_str year)") (auto simp: listing_events_def Let_def)

lemma season_rosters_paced:
  "paced 800 (snd (season_rosters env fs year)) \<and>
   length (filter is_sleep (snd (season_rosters env fs year))) =
     length (filter write_returned (snd (season_rosters env fs year))) \<and>
   (\<forall>ev \<in> set (snd (season_rosters env fs year)). is_sleep ev \<longrightarrow> ev = Sleep 800)"
proof (cases "CommonAllPlayers env (season_str year)")
  case (Inl e)
  then show ?thesis by (simp add: season_rosters_def)
next
  case (Inr all_players)
  from save_rosters_paced [OF surjective_pairing, of env "season_str year" fs "valid_teams all_players"]
    Inr
  show ?thesis by (simp add: season_rosters_def)
qed

lemma listing_events_counts:
  "filter is_sleep (listing_events env year) = [] \<and>
   filter write_returned (listing_events env year) = []"
  by (cases "CommonAllPlayers env (season_str year)") (auto simp: listing_events_def Let_def)

lemma seasons_loop_paced:
  "paced 800 (rtrace st) \<Longrightarrow>
   length (filter is_sleep (rtrace st)) = length (filter write_returned (rtrace st)) \<Longrightarrow>
   \<forall>ev \<in> set (rtrace st). is_sleep ev \<longrightarrow> ev = Sleep 800 \<Longrightarrow>
     paced 800 (rtrace (seasons_loop env st years)) \<and>
     length (filter is_sleep (rtrace (seasons_loop env st years))) =
       length (filter write_returned (rtrace (seasons_loop env st years))) \<and>
     (\<forall>ev \<in> set (rtrace (seasons_loop env st years)). is_sleep ev \<longrightarrow> ev = Sleep 800)"
proof (induction years arbitrary: st)
  case Nil
  then show ?case by simp
next
  case (Cons year rest)
  let ?st1 = "process_season env st year"
  note here = season_rosters_paced [of env "rfiles st" year]
  have "paced 800 (rtrace ?st1)"
    using Cons.prems(1) here
    by (simp add: process_season_eq paced_iff_append listing_events_paced)
  moreover have "length (filter is_sleep (rtrace ?st1)) = length (filter write_returned (rtrace ?st1))"
    using Cons.prems(2) here by (simp add: process_season_eq listing_events_counts)
  moreover have "\<forall>ev \<in> set (rtrace ?st1). is_sleep ev \<longrightarrow> ev = Sleep 800"
    using Cons.prems(3) here listing_events_quiet [of _ env year]
    by (auto simp: process_season_eq)
  ultimately show ?case using Cons.IH [of ?st1] by simp
qed

text \<open>
  C3. The returned identifier set is the union, over the seasons of the range whose
  listing call gave a data frame, of every \<^verbatim>\<open>PERSON_ID\<close> of the listing, free agents
  included. Neither the roster endpoint nor the file system occurs in it: the roster
  fetches of a season have no influence.
\<close>

theorem returned_ids_are_the_listed_ids:
  "player_ids_to_fetch (fetch_team_rosters env fs after_year current_year) =
     (\<Union>year \<in> {after_year..current_year}.
        case CommonAllPlayers env (season_str year) of
          Inl e \<Rightarrow> {}
        | Inr all_players \<Rightarrow> set (map PERSON_ID all_players))"
  by (simp add: fetch_team_rosters_def seasons_loop_ids listed_ids_def)

text \<open>
  C7. A run never calls the roster endpoint for team 0 and never writes the roster file
  of team 0; the teams of a season are the team identifiers of its listing other than 0,
  each once, and within one season no team is fetched twice.
\<close>

theorem no_unit_for_team_zero:
  "(\<forall>ev \<in> set (rtrace (fetch_team_rosters env fs after_year current_year)).
      \<forall>season ok outcome.
        ev \<noteq> Call_team_roster 0 season ok \<and>
        ev \<noteq> Write_file (team_file env 0 season) outcome) \<and>
   set (valid_teams all_players) = TEAM_ID ` set all_players - {0} \<and>
   distinct (valid_teams all_players) \<and>
   distinct (map fst (roster_calls (rtrace (process_season env (st\<lparr>rtrace := []\<rparr>) year))))"
proof (intro conjI ballI allI)
  fix ev season ok outcome
  assume "ev \<in> set (rtrace (fetch_team_rosters env fs after_year current_year))"
  from seasons_loop_events [OF this [unfolded fetch_team_rosters_def]]
  show "ev \<noteq> Call_team_roster 0 season ok"
    and "ev \<noteq> Write_file (team_file env 0 season) outcome"
    by (auto dest: team_file_zero team_file_zero [OF sym])
next
  show "set (valid_teams all_players) = TEAM_ID ` set all_players - {0}"
    by (auto simp: valid_teams_def set_unique)
next
  show "distinct (valid_teams all_players)"
    by (rule distinct_valid_teams)
next
  show "distinct (map fst (roster_calls (rtrace (process_season env (st\<lparr>rtrace := []\<rparr>) year))))"
    by (simp add: process_season_eq roster_calls_append roster_calls_listing
        season_rosters_distinct)
qed

theorem no_unit_for_team_zero_witness:
  "Call_team_roster 5 ''2021-22'' True
     \<in> set (rtrace (fetch_team_rosters demo_env Map.empty 2021 2021)) \<and>
   Call_team_roster 0 ''2021-22'' True
     \<notin> set (rtrace (fetch_team_rosters demo_env Map.empty 2021 2021)) \<and>
   Write_file (team_file demo_env 0 ''2021-22'') Written
     \<notin> set (rtrace (fetch_team_rosters demo_env Map.empty 2021 2021)) \<and>
   valid_teams [\<lparr>PERSON_ID = 1, TEAM_ID = 5\<rparr>, \<lparr>PERSON_ID = 2, TEAM_ID = 5\<rparr>,
                \<lparr>PERSON_ID = 3, TEAM_ID = 0\<rparr>] = [5]"
proof -
  have "Call_team_roster 5 ''2021-22'' True
     \<in> set (rtrace (fetch_team_rosters demo_env Map.empty 2021 2021))"
    by (simp add: fetch_team_rosters_def process_season_def demo_env_def season_str_def
        str_def digits.simps valid_teams_def save_roster_def team_file_def Let_def)
  moreover have "valid_teams [\<lparr>PERSON_ID = 1, TEAM_ID = 5\<rparr>, \<lparr>PERSON_ID = 2, TEAM_ID = 5\<rparr>,
                \<lparr>PERSON_ID = 3, TEAM_ID = 0\<rparr>] = [5]"
    by (simp add: valid_teams_def)
  ultimately show ?thesis
    using no_unit_for_team_zero [of demo_env Map.empty 2021 2021, THEN conjunct1]
    by blast
qed

lemma save_roster_fetched:
  "save_roster env season fs team_id = (fs', evs) \<Longrightarrow>
     length (filter write_returned evs) \<le> length (filter unit_call_ok evs)"
  by (auto simp: save_roster_def Let_def split: if_splits sum.splits write_outcome.splits)

lemma save_rosters_fetched:
  "save_rosters env season fs teams = (fs', evs) \<Longrightarrow>
     length (filter write_returned evs) \<le> length (filter unit_call_ok evs)"
proof (induction teams arbitrary: fs fs' evs)
  case Nil
  then show ?case by simp
next
  case (Cons t rest)
  obtain fs1 evs1 where one: "save_roster env season fs t = (fs1, evs1)"
    by (cases "save_roster env season fs t")
  obtain fs2 evs2 where more: "save_rosters env season fs1 rest = (fs2, evs2)"
    by (cases "save_rosters env season fs1 rest")
  from Cons.prems one more have eq: "evs = evs1 @ evs2" by simp
  from save_roster_fetched [OF one] Cons.IH [OF more] show ?case
    unfolding eq by simp
qed

lemma season_rosters_fetched:
  "length (filter write_returned (snd (season_rosters env fs year))) \<le>
     length (filter unit_call_ok (snd (season_rosters env fs year)))"
proof (cases "CommonAllPlayers env (season_str year)")
  case (Inl e)
  then show ?thesis by (simp add: season_rosters_def)
next
  case (Inr all_players)
  from save_rosters_fetched [OF surjective_pairing, of env "season_str year" fs "valid_teams all_players"]
    Inr
  show ?thesis by (simp add: season_rosters_def)
qed

lemma seasons_loop_fetched:
  "length (filter write_returned (rtrace st)) \<le> length (filter unit_call_ok (rtrace st)) \<Longrightarrow>
     length (filter write_returned (rtrace (seasons_loop env st years))) \<le>
       length (filter unit_call_ok (rtrace (seasons_loop env st years)))"
proof (induction years arbitrary: st)
  case Nil
  then show ?case by simp
next
  case (Cons year rest)
  let ?st1 = "process_season env st year"
  have "length (filter write_returned (rtrace ?st1)) \<le> length (filter unit_call_ok (rtrace ?st1))"
    using Cons.prems season_rosters_fetched [of env "rfiles st" year]
    by (simp add: process_season_eq listing_events_counts)
  from Cons.IH [OF this] show ?case by simp
qed

section \<open>Facts about the player harvester\<close>

subsection \<open>One player\<close>

lemma on_error_fields:
  "saved_count (on_error p_id e st) = saved_count st"
  "skipped_count (on_error p_id e st) = skipped_count st"
  "error_count (on_error p_id e st) = error_count st + 1"
  "files (on_error p_id e st) = files st"
  by (simp_all add: on_error_def Let_def)

lemma on_error_out:
  "\<exists>msgs. out (on_error p_id e st) = out st @ map Print msgs"
proof -
  have "out (on_error p_id e st) = out st @ map Print
      (if error_count st + 1 \<le> 10 then [Error_fetching_player p_id e]
       else if error_count st + 1 = 11 then [Suppressing] else [])"
    by (simp add: on_error_def Let_def)
  then show ?thesis by blast
qed

lemma player_unit_skip:
  "files st (p_file env p_id) \<noteq> None \<Longrightarrow>
     player_unit env n idx st p_id = st\<lparr>skipped_count := skipped_count st + 1\<rparr>"
  by (simp add: player_unit_def)

lemma player_unit_frame:
  "files st path = Some v \<Longrightarrow> files (player_unit env n idx st p_id) path = Some v"
  by (auto simp: player_unit_def Let_def on_error_fields split: sum.splits write_outcome.splits)

lemma player_unit_total:
  "saved_count (player_unit env n idx st p_id) + skipped_count (player_unit env n idx st p_id) +
     error_count (player_unit env n idx st p_id) =
   saved_count st + skipped_count st + error_count st + 1"
  by (auto simp: player_unit_def Let_def on_error_fields split: sum.splits write_outcome.splits)

lemma player_unit_raises:
  "unit_raises env (files st) p_id \<Longrightarrow>
     error_count (player_unit env n idx st p_id) = error_count st + 1 \<and>
     saved_count (player_unit env n idx st p_id) = saved_count st \<and>
     skipped_count (player_unit env n idx st p_id) = skipped_count st"
  by (auto simp: player_unit_def unit_raises_def Let_def on_error_fields
      split: sum.splits write_outcome.splits)

lemma player_unit_errors_mono:
  "error_count st \<le> error_count (player_unit env n idx st p_id)"
  by (auto simp: player_unit_def Let_def on_error_fields split: sum.splits write_outcome.splits)

text \<open>The events of one unit, by what happened.\<close>

lemma player_unit_out:
  "\<exists>evs msgs.
     out (player_unit env n idx st p_id) = out st @ evs @ map Print msgs \<and>
     ((evs = [] \<and> msgs = [] \<and> saved_count (player_unit env n idx st p_id) = saved_count st \<and>
         error_count (player_unit env n idx st p_id) = error_count st) \<or>
      (evs = [Call_player_career p_id False] \<and>
         saved_count (player_unit env n idx st p_id) = saved_count st \<and>
         error_count (player_unit env n idx st p_id) = error_count st + 1) \<or>
      (\<exists>progress. evs = [Call_player_career p_id True, Write_file (p_file env p_id) Written] @
           map Print progress @ [Sleep 700] \<and> msgs = [] \<and>
         saved_count (player_unit env n idx st p_id) = saved_count st + 1 \<and>
         error_count (player_unit env n idx st p_id) = error_count st) \<or>
      (\<exists>m. evs = [Call_player_career p_id True, Write_file (p_file env p_id) Not_created,
           Print m, Sleep 700] \<and> msgs = [] \<and>
         saved_count (player_unit env n idx st p_id) = saved_count st \<and>
         error_count (player_unit env n idx st p_id) = error_count st + 1) \<or>
      (\<exists>e. (evs = [Call_player_career p_id True, Write_file (p_file env p_id) (Write_error e)] \<or>
            evs = [Call_player_career p_id True, Write_file (p_file env p_id) (Write_truncated e)]) \<and>
         saved_count (player_unit env n idx st p_id) = saved_count st \<and>
         error_count (player_unit env n idx st p_id) = error_count st + 1))"
proof (cases "files st (p_file env p_id) \<noteq> None")
  case True
  then have "player_unit env n idx st p_id = st\<lparr>skipped_count := skipped_count st + 1\<rparr>"
    by (rule player_unit_skip)
  then have "out (player_unit env n idx st p_id) = out st @ [] @ map Print [] \<and>
      saved_count (player_unit env n idx st p_id) = saved_count st \<and>
      error_count (player_unit env n idx st p_id) = error_count st"
    by simp
  then show ?thesis by blast
next
  case False
  then have absent: "files st (p_file env p_id) = None" by simp
  show ?thesis
  proof (cases "PlayerCareerStats env p_id")
    case (Inl e)
    let ?st1 = "st\<lparr>out := out st @ [Call_player_career p_id False]\<rparr>"
    from absent Inl have eq: "player_unit env n idx st p_id = on_error p_id e ?st1"
      by (simp add: player_unit_def)
    obtain msgs where "out (on_error p_id e ?st1) = out ?st1 @ map Print msgs"
      using on_error_out by blast
    then have "out (player_unit env n idx st p_id) =
        out st @ [Call_player_career p_id False] @ map Print msgs"
      by (simp add: eq)
    then show ?thesis by (intro exI conjI, assumption) (simp add: eq on_error_fields)
  next
    case (Inr fetched)
    show ?thesis
    proof (cases "to_json env (p_file env p_id)")
      case Written
      let ?progress = "if idx mod 100 = 0 \<or> idx \<le> 5 then [Progress idx n p_id] else []"
      from absent Inr Written
      have "out (player_unit env n idx st p_id) =
          out st @ ([Call_player_career p_id True, Write_file (p_file env p_id) Written] @
            map Print ?progress @ [Sleep 700]) @ map Print []"
        and "saved_count (player_unit env n idx st p_id) = saved_count st + 1"
        and "error_count (player_unit env n idx st p_id) = error_count st"
        by (simp_all add: player_unit_def Let_def)
      then show ?thesis by blast
    next
      case Not_created
      from absent Inr Not_created
      have "out (player_unit env n idx st p_id) =
          out st @ [Call_player_career p_id True, Write_file (p_file env p_id) Not_created,
            Print (Player_file_not_created p_id (p_file env p_id)), Sleep 700] @ map Print []"
        and "saved_count (player_unit env n idx st p_id) = saved_count st"
        and "error_count (player_unit env n idx st p_id) = error_count st + 1"
        by (simp_all add: player_unit_def Let_def)
      then show ?thesis by blast
    next
      case (Write_error e)
      let ?st1 = "st\<lparr>out := out st @
          [Call_player_career p_id True, Write_file (p_file env p_id) (Write_error e)]\<rparr>"
      from absent Inr Write_error have eq: "player_unit env n idx st p_id = on_error p_id e ?st1"
        by (simp add: player_unit_def Let_def)
      obtain msgs where "out (on_error p_id e ?st1) = out ?st1 @ map Print msgs"
        using on_error_out by blast
      then have "out (player_unit env n idx st p_id) =
          out st @ [Call_player_career p_id True, Write_file (p_file env p_id) (Write_error e)] @
            map Print msgs"
        by (simp add: eq)
      moreover have "saved_count (player_unit env n idx st p_id) = saved_count st"
        and "error_count (player_unit env n idx st p_id) = error_count st + 1"
        by (simp_all add: eq on_error_fields)
      ultimately show ?thesis by blast
    next
      case (Write_truncated e)
      let ?st1 = "st\<lparr>files := (files st)(p_file env p_id \<mapsto> Truncated), out := out st @
          [Call_player_career p_id True, Write_file (p_file env p_id) (Write_truncated e)]\<rparr>"
      from absent Inr Write_truncated have eq: "player_unit env n idx st p_id = on_error p_id e ?st1"
        by (simp add: player_unit_def Let_def)
      obtain msgs where "out (on_error p_id e ?st1) = out ?st1 @ map Print msgs"
        using on_error_out by blast
      then have "out (player_unit env n idx st p_id) =
          out st @ [Call_player_career p_id True, Write_file (p_file env p_id) (Write_truncated e)] @
            map Print msgs"
        by (simp add: eq)
      moreover have "saved_count (player_unit env n idx st p_id) = saved_count st"
        and "error_count (player_unit env n idx st p_id) = error_count st + 1"
        by (simp_all add: eq on_error_fields)
      ultimately show ?thesis by blast
    qed
  qed
qed

lemma filter_prints:
  "filter unit_saved (map Print msgs) = []" "filter unit_failed (map Print msgs) = []"
  "filter is_sleep (map Print msgs) = []" "filter write_returned (map Print msgs) = []"
  by (induction msgs) simp_all

lemma paced_prints: "paced ms (map Print msgs)"
  by (induction msgs) simp_all

lemma next_action_prints: "next_action (map Print msgs @ evs) = next_action evs"
  by (induction msgs) simp_all

lemma sleep_prints: "ev \<in> set (map Print msgs) \<Longrightarrow> \<not> is_sleep ev"
  by auto

lemma player_unit_counted:
  "saved_count st = length (filter unit_saved (out st)) \<Longrightarrow>
   error_count st = length (filter unit_failed (out st)) \<Longrightarrow>
     saved_count (player_unit env n idx st p_id) =
       length (filter unit_saved (out (player_unit env n idx st p_id))) \<and>
     error_count (player_unit env n idx st p_id) =
       length (filter unit_failed (out (player_unit env n idx st p_id)))"
  using player_unit_out [of env n idx st p_id]
  by (elim exE conjE disjE) (simp_all add: filter_prints)

lemma player_unit_paced:
  "paced 700 (out st) \<Longrightarrow>
   length (filter is_sleep (out st)) = length (filter write_returned (out st)) \<Longrightarrow>
   \<forall>ev \<in> set (out st). is_sleep ev \<longrightarrow> ev = Sleep 700 \<Longrightarrow>
     paced 700 (out (player_unit env n idx st p_id)) \<and>
     length (filter is_sleep (out (player_unit env n idx st p_id))) =
       length (filter write_returned (out (player_unit env n idx st p_id))) \<and>
     (\<forall>ev \<in> set (out (player_unit env n idx st p_id)). is_sleep ev \<longrightarrow> ev = Sleep 700)"
  using player_unit_out [of env n idx st p_id]
  by (elim exE conjE disjE)
    (auto simp: filter_prints paced_iff_append paced_prints next_action_prints)

subsection \<open>The loop over the players\<close>

lemma player_loop_append:
  "player_loop env n idx st (xs @ ys) =
     player_loop env n (idx + length xs) (player_loop env n idx st xs) ys"
  by (induction xs arbitrary: idx st) simp_all

lemma player_loop_frame:
  "files st path = Some v \<Longrightarrow> files (player_loop env n idx st player_ids) path = Some v"
  by (induction player_ids arbitrary: idx st) (simp_all add: player_unit_frame)

lemma player_loop_total:
  "saved_count (player_loop env n idx st player_ids) +
     skipped_count (player_loop env n idx st player_ids) +
     error_count (player_loop env n idx st player_ids) =
   saved_count st + skipped_count st + error_count st + length player_ids"
proof (induction player_ids arbitrary: idx st)
  case Nil
  show ?case by simp
next
  case (Cons p_id rest)
  from Cons [of "idx + 1" "player_unit env n idx st p_id"] player_unit_total [of env n idx st p_id]
  show ?case by simp
qed

lemma player_loop_errors_mono:
  "error_count st \<le> error_count (player_loop env n idx st player_ids)"
proof (induction player_ids arbitrary: idx st)
  case Nil
  show ?case by simp
next
  case (Cons p_id rest)
  from Cons [of "player_unit env n idx st p_id" "idx + 1"]
    player_unit_errors_mono [of st env n idx p_id]
  show ?case by simp
qed

lemma player_loop_counted:
  "saved_count st = length (filter unit_saved (out st)) \<Longrightarrow>
   error_count st = length (filter unit_failed (out st)) \<Longrightarrow>
     saved_count (player_loop env n idx st player_ids) =
       length (filter unit_saved (out (player_loop env n idx st player_ids))) \<and>
     error_count (player_loop env n idx st player_ids) =
       length (filter unit_failed (out (player_loop env n idx st player_ids)))"
proof (induction player_ids arbitrary: idx st)
  case Nil
  then show ?case by simp
next
  case (Cons p_id rest)
  from player_unit_counted [OF Cons.prems, of env n idx p_id]
  show ?case using Cons.IH [of "player_unit env n idx st p_id" "idx + 1"] by simp
qed

lemma player_loop_paced:
  "paced 700 (out st) \<Longrightarrow>
   length (filter is_sleep (out st)) = length (filter write_returned (out st)) \<Longrightarrow>
   \<forall>ev \<in> set (out st). is_sleep ev \<longrightarrow> ev = Sleep 700 \<Longrightarrow>
     paced 700 (out (player_loop env n idx st player_ids)) \<and>
     length (filter is_sleep (out (player_loop env n idx st player_ids))) =
       length (filter write_returned (out (player_loop env n idx st player_ids))) \<and>
     (\<forall>ev \<in> set (out (player_loop env n idx st player_ids)). is_sleep ev \<longrightarrow> ev = Sleep 700)"
proof (induction player_ids arbitrary: idx st)
  case Nil
  then show ?case by simp
next
  case (Cons p_id rest)
  from player_unit_paced [OF Cons.prems, of env n idx p_id]
  show ?case using Cons.IH [of "player_unit env n idx st p_id" "idx + 1"] by simp
qed

lemma player_unit_career:
  "files (player_unit env n idx st p_id) path = Some (Career_json rows) \<Longrightarrow>
     files st path = Some (Career_json rows) \<or>
     (\<exists>fetched. path = p_file env p_id \<and> PlayerCareerStats env p_id = Inr fetched \<and>
        rows = drop_tot fetched)"
  by (auto simp: player_unit_def Let_def on_error_fields
      split: if_splits sum.splits write_outcome.splits)

lemma player_loop_career:
  "files (player_loop env n idx st player_ids) path = Some (Career_json rows) \<Longrightarrow>
     files st path = Some (Career_json rows) \<or>
     (\<exists>p_id \<in> set player_ids. \<exists>fetched. path = p_file env p_id \<and>
        PlayerCareerStats env p_id = Inr fetched \<and> rows = drop_tot fetched)"
proof (induction player_ids arbitrary: idx st)
  case Nil
  then show ?case by simp
next
  case (Cons p_id rest)
  from Cons.IH [of "idx + 1" "player_unit env n idx st p_id"] Cons.prems
  have "files (player_unit env n idx st p_id) path = Some (Career_json rows) \<or>
     (\<exists>p \<in> set rest. \<exists>fetched. path = p_file env p \<and>
        PlayerCareerStats env p = Inr fetched \<and> rows = drop_tot fetched)"
    by simp
  then show ?case using player_unit_career [of env n idx st p_id path rows] by auto
qed

lemma final_fields:
  "files (final (fetch_player_data env fs player_ids)) =
     files (player_loop env (length player_ids) 1
       \<lparr>saved_count = 0, error_count = 0, skipped_count = 0, files = fs,
        out = [Print (Saving_players (length player_ids))]\<rparr> player_ids)"
  "saved_count (final (fetch_player_data env fs player_ids)) =
     saved_count (player_loop env (length player_ids) 1
       \<lparr>saved_count = 0, error_count = 0, skipped_count = 0, files = fs,
        out = [Print (Saving_players (length player_ids))]\<rparr> player_ids)"
  "skipped_count (final (fetch_player_data env fs player_ids)) =
     skipped_count (player_loop env (length player_ids) 1
       \<lparr>saved_count = 0, error_count = 0, skipped_count = 0, files = fs,
        out = [Print (Saving_players (length player_ids))]\<rparr> player_ids)"
  "error_count (final (fetch_player_data env fs player_ids)) =
     error_count (player_loop env (length player_ids) 1
       \<lparr>saved_count = 0, error_count = 0, skipped_count = 0, files = fs,
        out = [Print (Saving_players (length player_ids))]\<rparr> player_ids)"
  "out (final (fetch_player_data env fs player_ids)) =
     out (player_loop env (length player_ids) 1
       \<lparr>saved_count = 0, error_count = 0, skipped_count = 0, files = fs,
        out = [Print (Saving_players (length player_ids))]\<rparr> player_ids) @
     [Print (Complete
        (saved_count (final (fetch_player_data env fs player_ids)))
        (skipped_count (final (fetch_player_data env fs player_ids)))
        (error_count (final (fetch_player_data env fs player_ids))))]"
  by (simp_all add: fetch_player_data_def Let_def)

lemma final_counted:
  "saved_count (final (fetch_player_data env fs player_ids)) =
     length (filter unit_saved (out (final (fetch_player_data env fs player_ids)))) \<and>
   error_count (final (fetch_player_data env fs player_ids)) =
     length (filter unit_failed (out (final (fetch_player_data env fs player_ids))))"
proof -
  let ?st0 = "\<lparr>saved_count = 0, error_count = 0, skipped_count = 0, files = fs,
        out = [Print (Saving_players (length player_ids))]\<rparr>"
  have "saved_count ?st0 = length (filter unit_saved (out ?st0))"
    and "error_count ?st0 = length (filter unit_failed (out ?st0))"
    by simp_all
  from player_loop_counted [OF this, of env "length player_ids" 1 player_ids]
  show ?thesis by (simp add: final_fields)
qed

lemma final_paced:
  "paced 700 (out (final (fetch_player_data env fs player_ids))) \<and>
   length (filter is_sleep (out (final (fetch_player_data env fs player_ids)))) =
     length (filter write_returned (out (final (fetch_player_data env fs player_ids)))) \<and>
   (\<forall>ev \<in> set (out (final (fetch_player_data env fs player_ids))). is_sleep ev \<longrightarrow> ev = Sleep 700)"
proof -
  let ?st0 = "\<lparr>saved_count = 0, error_count = 0, skipped_count = 0, files = fs,
        out = [Print (Saving_players (length player_ids))]\<rparr>"
  have "paced 700 (out ?st0)"
    and "length (filter is_sleep (out ?st0)) = length (filter write_returned (out ?st0))"
    and "\<forall>ev \<in> set (out ?st0). is_sleep ev \<longrightarrow> ev = Sleep 700"
    by simp_all
  from player_loop_paced [OF this, of env "length player_ids" 1 player_ids]
  show ?thesis by (auto simp: final_fields paced_iff_append)
qed

lemma player_unit_fetched:
  "length (filter write_returned (out st)) \<le> length (filter unit_call_ok (out st)) \<Longrightarrow>
     length (filter write_returned (out (player_unit env n idx st p_id))) \<le>
       length (filter unit_call_ok (out (player_unit env n idx st p_id)))"
  using player_unit_out [of env n idx st p_id]
  by (elim exE conjE disjE) (auto simp: filter_prints)

lemma player_loop_fetched:
  "length (filter write_returned (out st)) \<le> length (filter unit_call_ok (out st)) \<Longrightarrow>
     length (filter write_returned (out (player_loop env n idx st player_ids))) \<le>
       length (filter unit_call_ok (out (player_loop env n idx st player_ids)))"
proof (induction player_ids arbitrary: idx st)
  case Nil
  then show ?case by simp
next
  case (Cons p_id rest)
  from player_unit_fetched [OF Cons.prems, of env n idx p_id]
  show ?case using Cons.IH [of "player_unit env n idx st p_id" "idx + 1"] by simp
qed

lemma final_fetched:
  "length (filter write_returned (out (final (fetch_player_data env fs player_ids)))) \<le>
     length (filter unit_call_ok (out (final (fetch_player_data env fs player_ids))))"
proof -
  let ?st0 = "\<lparr>saved_count = 0, error_count = 0, skipped_count = 0, files = fs,
        out = [Print (Saving_players (length player_ids))]\<rparr>"
  have "length (filter write_returned (out ?st0)) \<le> length (filter unit_call_ok (out ?st0))"
    by simp
  from player_loop_fetched [OF this, of env "length player_ids" 1 player_ids]
  show ?thesis by (simp add: final_fields)
qed

lemma player_unit_attempted:
  "files (player_unit env n idx st p_id) (p_file env p_id) \<noteq> None \<or>
   (\<exists>ok. Call_player_career p_id ok \<in> set (out (player_unit env n idx st p_id)))"
  by (auto simp: player_unit_def Let_def on_error_def split: sum.splits write_outcome.splits)

lemma player_unit_out_mono:
  "ev \<in> set (out st) \<Longrightarrow> ev \<in> set (out (player_unit env n idx st p_id))"
  using player_unit_out [of env n idx st p_id] by auto

lemma player_loop_out_mono:
  "ev \<in> set (out st) \<Longrightarrow> ev \<in> set (out (player_loop env n idx st player_ids))"
  by (induction player_ids arbitrary: idx st) (simp_all add: player_unit_out_mono)

lemma player_loop_attempted:
  "p_id \<in> set player_ids \<Longrightarrow>
     files (player_loop env n idx st player_ids) (p_file env p_id) \<noteq> None \<or>
     (\<exists>ok. Call_player_career p_id ok \<in> set (out (player_loop env n idx st player_ids)))"
proof (induction player_ids arbitrary: idx st)
  case Nil
  then show ?case by simp
next
  case (Cons p rest)
  let ?st1 = "player_unit env n idx st p"
  show ?case
  proof (cases "p_id \<in> set rest")
    case True
    from Cons.IH [OF this, of "idx + 1" ?st1] show ?thesis by simp
  next
    case False
    with Cons.prems have same: "p_id = p" by simp
    from player_unit_attempted [of env n idx st p]
    consider v where "files ?st1 (p_file env p) = Some v"
      | ok where "Call_player_career p ok \<in> set (out ?st1)"
      by auto
    then show ?thesis
    proof cases
      case 1
      from player_loop_frame [OF this, of env n "idx + 1" rest] same show ?thesis by simp
    next
      case 2
      from player_loop_out_mono [OF this, of env n "idx + 1" rest] same show ?thesis by auto
    qed
  qed
qed

section \<open>The claims about the player harvester and about both harvesters\<close>

text \<open>
  C2. When processing a player raises inside the \<^verbatim>\<open>try\<close> block (the provider call or the
  write raises), the handler adds exactly one to the error counter and leaves the other
  two counters alone, and the run goes on with the players after it: the result of the
  run is the result of the loop over the later players from the state the handler left,
  and for each later player the career call is in the trace or the file is in the store.
  At the end every one of the players is counted once, as saved, skipped or errored.
\<close>

theorem error_isolation:
  assumes ids: "player_ids = before @ p_id # later"
    and st0: "st0 = \<lparr>saved_count = 0, error_count = 0, skipped_count = 0, files = fs,
        out = [Print (Saving_players (length player_ids))]\<rparr>"
    and st: "st = player_loop env (length player_ids) 1 st0 before"
    and raises: "unit_raises env (files st) p_id"
    and st': "st' = player_unit env (length player_ids) (length before + 1) st p_id"
    and rest: "end = player_loop env (length player_ids) (length before + 2) st' later"
    and result: "result = final (fetch_player_data env fs player_ids)"
  shows "error_count st' = error_count st + 1 \<and>
         saved_count st' = saved_count st \<and>
         skipped_count st' = skipped_count st \<and>
         files result = files end \<and>
         saved_count result = saved_count end \<and>
         skipped_count result = skipped_count end \<and>
         error_count result = error_count end \<and>
         error_count st + 1 \<le> error_count result \<and>
         saved_count result + skipped_count result + error_count result = length player_ids \<and>
         (\<forall>q \<in> set later.
            files result (p_file env q) \<noteq> None \<or>
            (\<exists>ok. Call_player_career q ok \<in> set (out result)))"
proof -
  have loop: "player_loop env (length player_ids) 1 st0 player_ids = end"
    by (simp add: ids player_loop_append st st' rest)
  have fields: "files result = files end" "saved_count result = saved_count end"
    "skipped_count result = skipped_count end" "error_count result = error_count end"
    using loop by (simp_all add: result final_fields st0 [symmetric])
  have trace: "set (out end) \<subseteq> set (out result)"
    using loop by (auto simp: result final_fields(5) st0 [symmetric])
  have step: "error_count st' = error_count st + 1 \<and> saved_count st' = saved_count st \<and>
      skipped_count st' = skipped_count st"
    unfolding st' by (rule player_unit_raises [OF raises])
  have "error_count st' \<le> error_count end"
    unfolding rest by (rule player_loop_errors_mono)
  with step have least: "error_count st + 1 \<le> error_count result"
    by (simp add: fields)
  have "saved_count end + skipped_count end + error_count end =
      saved_count st0 + skipped_count st0 + error_count st0 + length player_ids"
    unfolding loop [symmetric] by (rule player_loop_total)
  then have total: "saved_count end + skipped_count end + error_count end = length player_ids"
    by (simp add: st0)
  have attempted: "\<forall>q \<in> set later.
            files result (p_file env q) \<noteq> None \<or>
            (\<exists>ok. Call_player_career q ok \<in> set (out result))"
  proof
    fix q
    assume "q \<in> set later"
    from player_loop_attempted [OF this, of env "length player_ids" "length before + 2" st']
    show "files result (p_file env q) \<noteq> None \<or>
            (\<exists>ok. Call_player_career q ok \<in> set (out result))"
      using trace by (auto simp: fields rest)
  qed
  from step fields least total attempted show ?thesis by simp
qed

theorem error_isolation_witness:
  "unit_raises demo_env
     (files (player_loop demo_env (length [1, 2, 1 :: int]) 1
        \<lparr>saved_count = 0, error_count = 0, skipped_count = 0, files = Map.empty,
         out = [Print (Saving_players (length [1, 2, 1 :: int]))]\<rparr> [1])) 2 \<and>
   saved_count (final (fetch_player_data demo_env Map.empty [1, 2, 1])) = 1 \<and>
   skipped_count (final (fetch_player_data demo_env Map.empty [1, 2, 1])) = 1 \<and>
   error_count (final (fetch_player_data demo_env Map.empty [1, 2, 1])) = 1 \<and>
   saved_count (final (fetch_player_data demo_env Map.empty [1, 2, 1])) +
     skipped_count (final (fetch_player_data demo_env Map.empty [1, 2, 1])) +
     error_count (final (fetch_player_data demo_env Map.empty [1, 2, 1])) = length [1, 2, 1 :: int]"
proof -
  have split: "[1, 2, 1 :: int] = [1] @ 2 # [1]" by simp
  have raises: "unit_raises demo_env
     (files (player_loop demo_env (length [1, 2, 1 :: int]) 1
        \<lparr>saved_count = 0, error_count = 0, skipped_count = 0, files = Map.empty,
         out = [Print (Saving_players (length [1, 2, 1 :: int]))]\<rparr> [1])) 2"
    by (simp add: unit_raises_def player_unit_def demo_env_def p_file_def str_def digits.simps
        Let_def)
  have counts: "saved_count (final (fetch_player_data demo_env Map.empty [1, 2, 1])) = 1"
    "skipped_count (final (fetch_player_data demo_env Map.empty [1, 2, 1])) = 1"
    "error_count (final (fetch_player_data demo_env Map.empty [1, 2, 1])) = 1"
    by (simp_all add: fetch_player_data_def player_unit_def on_error_def demo_env_def
        p_file_def str_def digits.simps Let_def)
  have total: "saved_count (final (fetch_player_data demo_env Map.empty [1, 2, 1])) +
     skipped_count (final (fetch_player_data demo_env Map.empty [1, 2, 1])) +
     error_count (final (fetch_player_data demo_env Map.empty [1, 2, 1])) = length [1, 2, 1 :: int]"
    using error_isolation [OF split refl refl raises refl refl refl] by blast
  show ?thesis by (intro conjI raises counts total)
qed

text \<open>
  C4, as the code has it. In both harvesters every write that comes back without raising
  (which follows a fetch that gave a data frame) is followed by the pause, 800 ms for
  rosters and 700 ms for players, before the run does anything else but printing. There
  is no pause of another length, there are at most as many pauses as roster (or career)
  calls that gave a data frame, and a unit whose key is already in the store leaves no
  event at all, so it incurs no pause. Nothing is said about the listing call of a
  season, nor about a fetch whose write raises.
\<close>

theorem pause_after_each_stored_fetch:
  "paced 800 (rtrace (fetch_team_rosters env fs after_year current_year)) \<and>
   length (filter is_sleep (rtrace (fetch_team_rosters env fs after_year current_year))) \<le>
     length (filter unit_call_ok (rtrace (fetch_team_rosters env fs after_year current_year))) \<and>
   (\<forall>ev \<in> set (rtrace (fetch_team_rosters env fs after_year current_year)).
      is_sleep ev \<longrightarrow> ev = Sleep 800) \<and>
   paced 700 (out (final (fetch_player_data env fs player_ids))) \<and>
   length (filter is_sleep (out (final (fetch_player_data env fs player_ids)))) \<le>
     length (filter unit_call_ok (out (final (fetch_player_data env fs player_ids)))) \<and>
   (\<forall>ev \<in> set (out (final (fetch_player_data env fs player_ids))).
      is_sleep ev \<longrightarrow> ev = Sleep 700) \<and>
   (fs' (team_file env team_id season) \<noteq> None \<longrightarrow>
      snd (save_roster env season fs' team_id) = []) \<and>
   (files st (p_file env p_id) \<noteq> None \<longrightarrow> out (player_unit env n idx st p_id) = out st)"
proof -
  let ?st0 = "\<lparr>player_ids_to_fetch = {}, rfiles = fs, rtrace = []\<rparr>"
  have "paced 800 (rtrace ?st0)"
    and "length (filter is_sleep (rtrace ?st0)) = length (filter write_returned (rtrace ?st0))"
    and "\<forall>ev \<in> set (rtrace ?st0). is_sleep ev \<longrightarrow> ev = Sleep 800"
    by simp_all
  then have rosters: "paced 800 (rtrace (fetch_team_rosters env fs after_year current_year)) \<and>
   length (filter is_sleep (rtrace (fetch_team_rosters env fs after_year current_year))) =
     length (filter write_returned (rtrace (fetch_team_rosters env fs after_year current_year))) \<and>
   (\<forall>ev \<in> set (rtrace (fetch_team_rosters env fs after_year current_year)).
      is_sleep ev \<longrightarrow> ev = Sleep 800)"
    unfolding fetch_team_rosters_def by (rule seasons_loop_paced)
  have "length (filter write_returned (rtrace ?st0)) \<le> length (filter unit_call_ok (rtrace ?st0))"
    by simp
  then have "length (filter write_returned (rtrace (fetch_team_rosters env fs after_year current_year)))
      \<le> length (filter unit_call_ok (rtrace (fetch_team_rosters env fs after_year current_year)))"
    unfolding fetch_team_rosters_def by (rule seasons_loop_fetched)
  with rosters
  have roster_pauses:
    "length (filter is_sleep (rtrace (fetch_team_rosters env fs after_year current_year))) \<le>
     length (filter unit_call_ok (rtrace (fetch_team_rosters env fs after_year current_year)))"
    by simp
  have player_pauses:
    "length (filter is_sleep (out (final (fetch_player_data env fs player_ids)))) \<le>
     length (filter unit_call_ok (out (final (fetch_player_data env fs player_ids))))"
    using final_paced [of env fs player_ids] final_fetched [of env fs player_ids] by simp
  have skips: "fs' (team_file env team_id season) \<noteq> None \<longrightarrow>
      snd (save_roster env season fs' team_id) = []"
    "files st (p_file env p_id) \<noteq> None \<longrightarrow> out (player_unit env n idx st p_id) = out st"
    by (simp_all add: save_roster_skip player_unit_skip)
  from rosters roster_pauses player_pauses final_paced [of env fs player_ids] skips
  show ?thesis by blast
qed

theorem pause_after_each_stored_fetch_witness:
  "filter is_sleep (rtrace (fetch_team_rosters demo_env Map.empty 2021 2022)) = [Sleep 800] \<and>
   filter write_returned (rtrace (fetch_team_rosters demo_env Map.empty 2021 2022)) =
     [Write_file ''data/teams/5_2021-22.json'' Written] \<and>
   paced 800 (rtrace (fetch_team_rosters demo_env Map.empty 2021 2022)) \<and>
   filter is_sleep (out (final (fetch_player_data demo_env Map.empty [1, 2, 1]))) = [Sleep 700] \<and>
   paced 700 (out (final (fetch_player_data demo_env Map.empty [1, 2, 1]))) \<and>
   team_file demo_env 5 ''2021-22'' = ''data/teams/5_2021-22.json'' \<and>
   snd (save_roster demo_env ''2021-22'' [''data/teams/5_2021-22.json'' \<mapsto> Truncated] 5) = []"
proof -
  have "filter is_sleep (rtrace (fetch_team_rosters demo_env Map.empty 2021 2022)) = [Sleep 800]"
    and "filter write_returned (rtrace (fetch_team_rosters demo_env Map.empty 2021 2022)) =
      [Write_file ''data/teams/5_2021-22.json'' Written]"
    by (simp_all add: fetch_team_rosters_def process_season_def demo_env_def season_str_def
        str_def digits.simps valid_teams_def save_roster_def team_file_def Let_def)
  moreover have
    "filter is_sleep (out (final (fetch_player_data demo_env Map.empty [1, 2, 1]))) = [Sleep 700]"
    by (simp add: fetch_player_data_def player_unit_def on_error_def demo_env_def
        p_file_def str_def digits.simps Let_def)
  moreover have path: "team_file demo_env 5 ''2021-22'' = ''data/teams/5_2021-22.json''"
    by (simp add: team_file_def demo_env_def str_def digits.simps)
  ultimately show ?thesis
    using pause_after_each_stored_fetch [where env = demo_env and fs = Map.empty
        and after_year = 2021 and current_year = 2022 and player_ids = "[1, 2, 1]"
        and fs' = "[''data/teams/5_2021-22.json'' \<mapsto> Truncated]" and team_id = 5
        and season = "''2021-22''"]
    by simp
qed

text \<open>
  The claim as it is written fails in both harvesters. In the roster harvester the listing
  call of season 2021-22 gives a data frame and the roster call for team 5 follows it with
  no pause in between. In the player harvester the career call for player 1 gives a data
  frame, its write raises, and the career call for player 4 follows with no pause.
\<close>

theorem pause_counterexample:
  "\<not> spaced 800 (rtrace (fetch_team_rosters demo_env Map.empty 2021 2021)) \<and>
   \<not> spaced 700 (out (final (fetch_player_data flaky_env Map.empty [1, 4])))"
proof
  show "\<not> spaced 800 (rtrace (fetch_team_rosters demo_env Map.empty 2021 2021))"
    by (simp add: fetch_team_rosters_def process_season_def demo_env_def season_str_def str_def
        digits.simps valid_teams_def save_roster_def team_file_def Let_def)
  show "\<not> spaced 700 (out (final (fetch_player_data flaky_env Map.empty [1, 4])))"
    by (simp add: fetch_player_data_def player_unit_def on_error_def flaky_env_def
        p_file_def str_def digits.simps Let_def)
qed

text \<open>
  C5, as the code has it. The player harvester returns \<^verbatim>\<open>None\<close>. The final counts go to
  the summary line, the last line it prints: the saved count is the number of records
  written, the error count the number of units whose call raised or whose write did not
  leave the file, and the three counts add up to the number of players.
\<close>

theorem counts_are_printed_not_returned:
  "returned (fetch_player_data env fs player_ids) = None \<and>
   last (out (final (fetch_player_data env fs player_ids))) =
     Print (Complete
       (saved_count (final (fetch_player_data env fs player_ids)))
       (skipped_count (final (fetch_player_data env fs player_ids)))
       (error_count (final (fetch_player_data env fs player_ids)))) \<and>
   saved_count (final (fetch_player_data env fs player_ids)) =
     length (filter unit_saved (out (final (fetch_player_data env fs player_ids)))) \<and>
   error_count (final (fetch_player_data env fs player_ids)) =
     length (filter unit_failed (out (final (fetch_player_data env fs player_ids)))) \<and>
   saved_count (final (fetch_player_data env fs player_ids)) +
     skipped_count (final (fetch_player_data env fs player_ids)) +
     error_count (final (fetch_player_data env fs player_ids)) = length player_ids"
proof -
  have "returned (fetch_player_data env fs player_ids) = None"
    by (simp add: fetch_player_data_def Let_def)
  moreover have "last (out (final (fetch_player_data env fs player_ids))) =
     Print (Complete
       (saved_count (final (fetch_player_data env fs player_ids)))
       (skipped_count (final (fetch_player_data env fs player_ids)))
       (error_count (final (fetch_player_data env fs player_ids))))"
    by (subst final_fields(5)) simp
  moreover have "saved_count (final (fetch_player_data env fs player_ids)) +
     skipped_count (final (fetch_player_data env fs player_ids)) +
     error_count (final (fetch_player_data env fs player_ids)) = length player_ids"
    using player_loop_total [of env "length player_ids" 1 _ player_ids]
    by (simp add: final_fields)
  ultimately show ?thesis using final_counted [of env fs player_ids] by simp
qed

text \<open>
  The claim as it is written fails: on three players, of which one is saved, one raises
  and one is skipped, the final counts are 1, 1 and 1 and the caller does not get them.
\<close>

theorem counts_counterexample:
  "saved_count (final (fetch_player_data demo_env Map.empty [1, 2, 1])) = 1 \<and>
   skipped_count (final (fetch_player_data demo_env Map.empty [1, 2, 1])) = 1 \<and>
   error_count (final (fetch_player_data demo_env Map.empty [1, 2, 1])) = 1 \<and>
   returned (fetch_player_data demo_env Map.empty [1, 2, 1]) \<noteq> Some (1, 1, 1)"
  by (simp add: fetch_player_data_def player_unit_def on_error_def demo_env_def
      p_file_def str_def digits.simps Let_def)

text \<open>
  C6. When a career is fetched and written, the stored record is the fetched rows without
  those whose \<^verbatim>\<open>TEAM_ABBREVIATION\<close> is ``TOT'', the other rows unchanged and in their
  order. Every career record that a run creates is such a record: it has no ``TOT'' row.
\<close>

theorem career_filtering:
  "(files st (p_file env p_id) = None \<and> PlayerCareerStats env p_id = Inr fetched \<and>
    to_json env (p_file env p_id) = Written \<longrightarrow>
      files (player_unit env n idx st p_id) (p_file env p_id) =
        Some (Career_json (filter (\<lambda>r. TEAM_ABBREVIATION r \<noteq> ''TOT'') fetched))) \<and>
   (fs path = None \<and>
    files (final (fetch_player_data env fs player_ids)) path = Some (Career_json rows) \<longrightarrow>
      (\<forall>r \<in> set rows. TEAM_ABBREVIATION r \<noteq> ''TOT'') \<and>
      (\<exists>p_id \<in> set player_ids. \<exists>fetched.
         path = p_file env p_id \<and> PlayerCareerStats env p_id = Inr fetched \<and>
         rows = filter (\<lambda>r. TEAM_ABBREVIATION r \<noteq> ''TOT'') fetched))"
proof (intro conjI impI)
  assume "files st (p_file env p_id) = None \<and> PlayerCareerStats env p_id = Inr fetched \<and>
    to_json env (p_file env p_id) = Written"
  then show "files (player_unit env n idx st p_id) (p_file env p_id) =
        Some (Career_json (filter (\<lambda>r. TEAM_ABBREVIATION r \<noteq> ''TOT'') fetched))"
    by (simp add: player_unit_def Let_def drop_tot_def)
next
  assume created: "fs path = None \<and>
    files (final (fetch_player_data env fs player_ids)) path = Some (Career_json rows)"
  then have "files (player_loop env (length player_ids) 1
       \<lparr>saved_count = 0, error_count = 0, skipped_count = 0, files = fs,
        out = [Print (Saving_players (length player_ids))]\<rparr> player_ids) path =
      Some (Career_json rows)"
    by (simp add: final_fields)
  from player_loop_career [OF this] created
  have found: "\<exists>p_id \<in> set player_ids. \<exists>fetched.
         path = p_file env p_id \<and> PlayerCareerStats env p_id = Inr fetched \<and>
         rows = filter (\<lambda>r. TEAM_ABBREVIATION r \<noteq> ''TOT'') fetched"
    by (simp add: drop_tot_def)
  then show "\<forall>r \<in> set rows. TEAM_ABBREVIATION r \<noteq> ''TOT''" by auto
  from found show "\<exists>p_id \<in> set player_ids. \<exists>fetched.
         path = p_file env p_id \<and> PlayerCareerStats env p_id = Inr fetched \<and>
         rows = filter (\<lambda>r. TEAM_ABBREVIATION r \<noteq> ''TOT'') fetched" .
qed

theorem career_filtering_witness:
  "PlayerCareerStats demo_env 1 = Inr demo_career \<and>
   length demo_career = 3 \<and>
   files (final (fetch_player_data demo_env Map.empty [1, 2, 1])) ''data/players/1.json'' =
     Some (Career_json
       [\<lparr>TEAM_ABBREVIATION = ''BOS'', SEASON_ID = ''2021-22'', stats = []\<rparr>,
        \<lparr>TEAM_ABBREVIATION = ''LAL'', SEASON_ID = ''2022-23'', stats = []\<rparr>]) \<and>
   list_all (\<lambda>r. TEAM_ABBREVIATION r \<noteq> ''TOT'')
     [\<lparr>TEAM_ABBREVIATION = ''BOS'', SEASON_ID = ''2021-22'', stats = []\<rparr>,
      \<lparr>TEAM_ABBREVIATION = ''LAL'', SEASON_ID = ''2022-23'', stats = []\<rparr>]"
proof -
  have stored:
    "files (final (fetch_player_data demo_env Map.empty [1, 2, 1])) ''data/players/1.json'' =
     Some (Career_json
       [\<lparr>TEAM_ABBREVIATION = ''BOS'', SEASON_ID = ''2021-22'', stats = []\<rparr>,
        \<lparr>TEAM_ABBREVIATION = ''LAL'', SEASON_ID = ''2022-23'', stats = []\<rparr>])"
    by (simp add: fetch_player_data_def player_unit_def on_error_def demo_env_def
        p_file_def str_def digits.simps Let_def drop_tot_def demo_career_def)
  have "Map.empty ''data/players/1.json'' = (None :: stored option)" by simp
  with stored career_filtering [of _ demo_env _ _ _ _ Map.empty "''data/players/1.json''"
      "[1, 2, 1]"
      "[\<lparr>TEAM_ABBREVIATION = ''BOS'', SEASON_ID = ''2021-22'', stats = []\<rparr>,
        \<lparr>TEAM_ABBREVIATION = ''LAL'', SEASON_ID = ''2022-23'', stats = []\<rparr>]"]
  have "\<forall>r \<in> set [\<lparr>TEAM_ABBREVIATION = ''BOS'', SEASON_ID = ''2021-22'', stats = []\<rparr>,
        \<lparr>TEAM_ABBREVIATION = ''LAL'', SEASON_ID = ''2022-23'', stats = []\<rparr>].
      TEAM_ABBREVIATION r \<noteq> ''TOT''"
    by blast
  with stored show ?thesis by (simp add: demo_env_def demo_career_def)
qed

text \<open>
  C9. A unit whose key is in the store when the unit starts makes no call and no write and
  leaves the store as it is; whatever a unit does, a record that is in the store stays as
  it is; so every record that is in the store at any point of a run of either harvester is
  there unchanged at the end: records are created, never overwritten and never deleted.
\<close>

theorem stored_records_stay:
  "(fs (team_file env team_id season) \<noteq> None \<longrightarrow>
      save_roster env season fs team_id = (fs, [])) \<and>
   (files st (p_file env p_id) \<noteq> None \<longrightarrow>
      player_unit env n idx st p_id = st\<lparr>skipped_count := skipped_count st + 1\<rparr>) \<and>
   (fs path = Some v \<longrightarrow> fst (save_roster env season fs team_id) path = Some v) \<and>
   (files st path = Some v \<longrightarrow> files (player_unit env n idx st p_id) path = Some v) \<and>
   (rfiles rst path = Some v \<longrightarrow> rfiles (seasons_loop env rst years) path = Some v) \<and>
   (files st path = Some v \<longrightarrow> files (player_loop env n idx st player_ids) path = Some v) \<and>
   (fs path = Some v \<longrightarrow>
      rfiles (fetch_team_rosters env fs after_year current_year) path = Some v \<and>
      files (final (fetch_player_data env fs player_ids)) path = Some v)"
proof -
  have "fs path = Some v \<longrightarrow> fst (save_roster env season fs team_id) path = Some v"
    using save_roster_frame [OF surjective_pairing] by blast
  moreover have "fs path = Some v \<longrightarrow>
      rfiles (fetch_team_rosters env fs after_year current_year) path = Some v \<and>
      files (final (fetch_player_data env fs player_ids)) path = Some v"
    by (simp add: fetch_team_rosters_def seasons_loop_frame final_fields player_loop_frame)
  ultimately show ?thesis
    by (simp add: save_roster_skip player_unit_skip player_unit_frame seasons_loop_frame
        player_loop_frame)
qed

theorem stored_records_stay_witness:
  "rfiles (fetch_team_rosters demo_env [''data/teams/5_2021-22.json'' \<mapsto> Truncated] 2021 2022)
     ''data/teams/5_2021-22.json'' = Some Truncated \<and>
   external_calls
     (rtrace (fetch_team_rosters demo_env [''data/teams/5_2021-22.json'' \<mapsto> Truncated] 2021 2022)) =
     [Call_all_players ''2021-22'' True, Call_all_players ''2022-23'' False] \<and>
   files (final (fetch_player_data demo_env [''data/players/1.json'' \<mapsto> Truncated] [1, 2, 1]))
     ''data/players/1.json'' = Some Truncated \<and>
   skipped_count (final (fetch_player_data demo_env [''data/players/1.json'' \<mapsto> Truncated]
     [1, 2, 1])) = 2"
proof -
  have "external_calls
     (rtrace (fetch_team_rosters demo_env [''data/teams/5_2021-22.json'' \<mapsto> Truncated] 2021 2022)) =
     [Call_all_players ''2021-22'' True, Call_all_players ''2022-23'' False]"
    by (simp add: fetch_team_rosters_def process_season_def demo_env_def season_str_def
        str_def digits.simps valid_teams_def save_roster_def team_file_def Let_def
        external_calls_def)
  moreover have
    "skipped_count (final (fetch_player_data demo_env [''data/players/1.json'' \<mapsto> Truncated]
       [1, 2, 1])) = 2"
    by (simp add: fetch_player_data_def player_unit_def on_error_def demo_env_def
        p_file_def str_def digits.simps Let_def)
  moreover have "[''data/teams/5_2021-22.json'' \<mapsto> Truncated] ''data/teams/5_2021-22.json'' =
      Some Truncated"
    and "[''data/players/1.json'' \<mapsto> Truncated] ''data/players/1.json'' = Some Truncated"
    by simp_all
  ultimately show ?thesis
    using stored_records_stay [where fs = "[''data/teams/5_2021-22.json'' \<mapsto> Truncated]"
        and env = demo_env and path = "''data/teams/5_2021-22.json''" and v = Truncated
        and after_year = 2021 and current_year = 2022]
      stored_records_stay [where fs = "[''data/players/1.json'' \<mapsto> Truncated]"
        and env = demo_env and path = "''data/players/1.json''" and v = Truncated
        and player_ids = "[1, 2, 1]"]
    by simp
qed

end
